theory Spec2Isabelle
  imports Main "HOL-Library.Sublist"
begin

section \<open>Terminal codes\<close>

text \<open>
  The lexer of \<^verbatim>\<open>pkg/sql/parser/lexer.go\<close> compares token identities (Go \<^verbatim>\<open>int32\<close>)
  with the named terminal constants of the generated grammar and with the byte values of
  punctuation characters. The generated constants are not part of the sources at hand, so
  the names used by the lexer are collected in one enumeration and their numbering is a
  parameter \<open>K\<close> of every operation. Identities are only compared, never computed with, so
  they are modelled as \<open>int\<close>.
\<close>

datatype keyword =
    NOTHING | RETURNING | NOTHING_AFTER_RETURNING
  | INDEX | OPTIONS | INVERTED | INDEX_BEFORE_PAREN | INDEX_BEFORE_NAME_THEN_PAREN
  | BY | ORDER | INDEX_AFTER_ORDER_BY_BEFORE_AT
  | NOT | WITH | AS | GENERATED | NULLS | RESET | ROLE | USER | ON | TENANT | CLUSTER | SET
  | OF | SYSTEM | AS_LA
  | BETWEEN | IN | LIKE | ILIKE | SIMILAR | NOT_LA
  | ALWAYS | GENERATED_ALWAYS | GENERATED_BY_DEFAULT
  | TIME | ORDINALITY | BUCKET_COUNT | WITH_LA
  | FIRST | LAST | NULLS_LA
  | ALL_kw | RESET_ALL | ROLE_ALL | USER_ALL
  | DELETE | UPDATE | ON_LA | NO | RESTRICT | CASCADE
  | TENANT_ALL | CLUSTER_ALL
  | TRACING | SESSION | SET_TRACING
  | ERROR | HELPTOKEN

text \<open>
  What the parser generator guarantees of the numbering: different names have different
  codes (the Go compiler rejects a \<^verbatim>\<open>switch\<close> with duplicate constant cases), and every
  named terminal lies above the single-character range.
\<close>

definition wf_codes :: "(keyword \<Rightarrow> int) \<Rightarrow> bool" where
  "wf_codes K \<longleftrightarrow> inj K \<and> (\<forall>k. 255 < K k)"

text \<open>
  One such numbering, the names numbered consecutively from 57346 on as the generator
  does; the theorems are instantiated with it on the example inputs.
\<close>

definition kwlist :: "keyword list" where
  "kwlist =
    [NOTHING, RETURNING, NOTHING_AFTER_RETURNING,
     INDEX, OPTIONS, INVERTED, INDEX_BEFORE_PAREN, INDEX_BEFORE_NAME_THEN_PAREN,
     BY, ORDER, INDEX_AFTER_ORDER_BY_BEFORE_AT,
     NOT, WITH, AS, GENERATED, NULLS, RESET, ROLE, USER, ON, TENANT, CLUSTER, SET,
     OF, SYSTEM, AS_LA,
     BETWEEN, IN, LIKE, ILIKE, SIMILAR, NOT_LA,
     ALWAYS, GENERATED_ALWAYS, GENERATED_BY_DEFAULT,
     TIME, ORDINALITY, BUCKET_COUNT, WITH_LA,
     FIRST, LAST, NULLS_LA,
     ALL_kw, RESET_ALL, ROLE_ALL, USER_ALL,
     DELETE, UPDATE, ON_LA, NO, RESTRICT, CASCADE,
     TENANT_ALL, CLUSTER_ALL,
     TRACING, SESSION, SET_TRACING,
     ERROR, HELPTOKEN]"

fun index_of :: "'a list \<Rightarrow> 'a \<Rightarrow> nat" where
  "index_of [] y = 0"
| "index_of (x # xs) y = (if x = y then 0 else Suc (index_of xs y))"

definition yycode :: "keyword \<Rightarrow> int" where
  "yycode k = 57346 + int (index_of kwlist k)"

text \<open>The byte value of a character constant such as \<^verbatim>\<open>','\<close>.\<close>

definition rune :: "char \<Rightarrow> int" where
  "rune c = of_char c"

text \<open>The Go conversion \<^verbatim>\<open>int32(n)\<close> of an \<^verbatim>\<open>int\<close>: the value wraps into 32 signed bits.\<close>

definition int32 :: "int \<Rightarrow> int" where
  "int32 n = (n + 2 ^ 31) mod 2 ^ 32 - 2 ^ 31"

section \<open>Tokens and the lexer state\<close>

text \<open>
  \<^verbatim>\<open>sqlSymType\<close>: the fields of a scanned token that the lexer reads and writes.
  \<^verbatim>\<open>sqlSymType{}\<close> is the zero value.
\<close>

record sqlSymType =
  id' :: int
  pos :: int
  str :: string

definition zeroSym :: sqlSymType where
  "zeroSym = \<lparr>id' = 0, pos = 0, str = []\<rparr>"

text \<open>Run-time panics of the Go code are values of the model.\<close>

datatype panic = IndexOutOfRange | SliceOutOfRange | NilDereference | NegativeRepeat

section \<open>Error values\<close>

text \<open>
  The lexer builds its diagnostics with the constructors of the error library; an error
  value is the chain of wrappers applied to a leaf. A leaf and a message prefix carry their
  text as it stands after formatting.
\<close>

datatype pgcode = Syntax

datatype error =
    New string
  | Wrap error string
  | WithSecondaryError error error
  | WithDetail error string
  | WithHint error string
  | WithCandidateCode error pgcode

definition nl :: char where
  "nl = CHR 0x0A"

definition dq :: char where
  "dq = CHR 0x22"

definition bs :: char where
  "bs = CHR 0x5C"

text \<open>
  An argument that \<^verbatim>\<open>errors.Newf\<close> or \<^verbatim>\<open>errors.Wrapf\<close> formats with \<^verbatim>\<open>%s\<close> enters the
  message with its redaction markers escaped: the characters U+2039 and U+203A (in UTF-8
  the bytes E2 80 B9 and E2 80 BA) become a question mark each.
\<close>

fun EscapeMarkers :: "string \<Rightarrow> string" where
  "EscapeMarkers (a # b # c # r) =
     (if a = CHR 0xE2 \<and> b = CHR 0x80 \<and> (c = CHR 0xB9 \<or> c = CHR 0xBA)
      then CHR ''?'' # EscapeMarkers r
      else a # EscapeMarkers (b # c # r))"
| "EscapeMarkers r = r"

text \<open>
  Formatting an error of the library with \<^verbatim>\<open>%v\<close> prints its chain on one line. Every
  level of the chain writes its text through the printer of the library: a message prefix
  its prefix, the leaf its text, the wrappers for a secondary error, a detail, a hint and a
  candidate code nothing. The texts that come out non-empty are joined with a colon and a
  space, the outermost first. How the printer treats the newlines of a text it writes is not
  modelled: it is the parameter \<open>P\<close>, of which the theorems use no more than
  \<open>writes_plain\<close>, that a text without newline is written as it is.
\<close>

fun entries :: "error \<Rightarrow> string list" where
  "entries (New s) = [s]"
| "entries (Wrap e p) = p # entries e"
| "entries (WithSecondaryError e s) = entries e"
| "entries (WithDetail e d) = entries e"
| "entries (WithHint e h) = entries e"
| "entries (WithCandidateCode e c) = entries e"

fun formatSingleLineOutput :: "string list \<Rightarrow> string" where
  "formatSingleLineOutput [] = []"
| "formatSingleLineOutput (h # hs) =
     (if h = [] then formatSingleLineOutput hs
      else if formatSingleLineOutput hs = [] then h
      else h @ '': '' @ formatSingleLineOutput hs)"

definition FormatError :: "(string \<Rightarrow> string) \<Rightarrow> error \<Rightarrow> string" where
  "FormatError P e = formatSingleLineOutput (map P (entries e))"


text \<open>
  A printer of this kind, with which the theorems are run on the example inputs: it leaves
  out the newlines at the end of a text.
\<close>

definition printerWrite :: "string \<Rightarrow> string" where
  "printerWrite t = rev (dropWhile (\<lambda>c. c = nl) (rev t))"

text \<open>
  The method \<^verbatim>\<open>Error()\<close>. A leaf returns its text. The wrappers for a secondary error, a
  detail, a hint and a candidate code hand the call on to the error they wrap, and so does a
  message prefix that is empty. A message prefix that is not empty returns
  \<^verbatim>\<open>fmt.Sprintf("%s: %v", prefix, cause)\<close>: the prefix, a colon and a space, and the wrapped
  error formatted with \<^verbatim>\<open>%v\<close>.
\<close>

fun Error :: "(string \<Rightarrow> string) \<Rightarrow> error \<Rightarrow> string" where
  "Error P (New s) = s"
| "Error P (Wrap e p) = (if p = [] then Error P e else p @ '': '' @ FormatError P e)"
| "Error P (WithSecondaryError e s) = Error P e"
| "Error P (WithDetail e d) = Error P e"
| "Error P (WithHint e h) = Error P e"
| "Error P (WithCandidateCode e c) = Error P e"

text \<open>
  A Go \<^verbatim>\<open>error\<close> may be \<^verbatim>\<open>nil\<close>: it is an \<open>error option\<close>. Every wrapping function of
  the library returns \<^verbatim>\<open>nil\<close> for a \<^verbatim>\<open>nil\<close> error; attaching a \<^verbatim>\<open>nil\<close> secondary
  error leaves the error as it is.
\<close>

definition errors_Wrap :: "error option \<Rightarrow> string \<Rightarrow> error option" where
  "errors_Wrap err msg = map_option (\<lambda>e. Wrap e msg) err"

definition errors_WithDetail :: "error option \<Rightarrow> string \<Rightarrow> error option" where
  "errors_WithDetail err d = map_option (\<lambda>e. WithDetail e d) err"

definition errors_WithHint :: "error option \<Rightarrow> string \<Rightarrow> error option" where
  "errors_WithHint err h = map_option (\<lambda>e. WithHint e h) err"

definition errors_WithSecondaryError :: "error option \<Rightarrow> error option \<Rightarrow> error option" where
  "errors_WithSecondaryError err additionalErr =
     (case err of
        None \<Rightarrow> None
      | Some e \<Rightarrow> (case additionalErr of None \<Rightarrow> Some e | Some s \<Rightarrow> Some (WithSecondaryError e s)))"

definition pgerror_WithCandidateCode :: "error option \<Rightarrow> pgcode \<Rightarrow> error option" where
  "pgerror_WithCandidateCode err c = map_option (\<lambda>e. WithCandidateCode e c) err"

section \<open>The lexer\<close>

text \<open>
  The \<^verbatim>\<open>lexer\<close> struct. The statement and the integer type it also stores are opaque
  references that no operation below reads; they are left out. \<^verbatim>\<open>lastPos\<close> is a Go
  \<^verbatim>\<open>int\<close> that starts at -1 and is only incremented.
\<close>

record lexer =
  in' :: string
  tokens :: "sqlSymType list"
  lastPos :: int
  numPlaceholders :: int
  numAnnotations :: int
  lastError :: "error option"

definition init :: "lexer \<Rightarrow> string \<Rightarrow> sqlSymType list \<Rightarrow> lexer" where
  "init l sql toks =
     l\<lparr>in' := sql, tokens := toks, lastPos := - 1,
       numPlaceholders := 0, numAnnotations := 0, lastError := None\<rparr>"

subsection \<open>Lex\<close>

text \<open>
  The switch in \<^verbatim>\<open>Lex\<close> only assigns to \<^verbatim>\<open>lval.id\<close>. Its three groups of cases
  follow; each definition gives the value of \<^verbatim>\<open>lval.id\<close> when the switch is left, from
  its value \<open>cur\<close> on entry.
\<close>

text \<open>\<^verbatim>\<open>case NOTHING\<close>.\<close>

definition Lex_NOTHING :: "(keyword \<Rightarrow> int) \<Rightarrow> lexer \<Rightarrow> int \<Rightarrow> int" where
  "Lex_NOTHING K l cur =
     (if lastPos l > 0 \<and> id' (tokens l ! nat (lastPos l - 1)) = K RETURNING
      then K NOTHING_AFTER_RETURNING else cur)"

text \<open>
  The loop of \<^verbatim>\<open>case INDEX\<close> that looks for an at-sign after an object name. It starts at
  \<^verbatim>\<open>lastPos + 1\<close> and its result is the final value of \<^verbatim>\<open>atSignAfterObjectName\<close>.
\<close>

function atSignAfterObjectName :: "sqlSymType list \<Rightarrow> int \<Rightarrow> int \<Rightarrow> bool" where
  "atSignAfterObjectName toks lp i =
     (if i < int (length toks) \<and> i < lp + 7 then
        (let curToken = id' (toks ! nat i) in
         if curToken < 255 \<and> curToken \<noteq> rune CHR ''.'' \<and> curToken \<noteq> rune CHR ''@'' then False
         else if curToken = rune CHR ''@'' then (if i = lp + 1 then False else True)
         else atSignAfterObjectName toks lp (i + 1))
      else False)"
  by pat_completeness auto
termination
  by (relation "measure (\<lambda>(toks, lp, i). nat (lp + 7 - i))") auto

declare atSignAfterObjectName.simps [simp del]

text \<open>\<^verbatim>\<open>case INDEX\<close>; a \<^verbatim>\<open>break\<close> leaves the switch.\<close>

definition Lex_INDEX :: "(keyword \<Rightarrow> int) \<Rightarrow> lexer \<Rightarrow> int \<Rightarrow> int" where
  "Lex_INDEX K l cur =
     (let prevID = (if lastPos l > 0 then id' (tokens l ! nat (lastPos l - 1)) else 0);
          pprevID = (if lastPos l > 1 then id' (tokens l ! nat (lastPos l - 2)) else 0);
          nextID = (if lastPos l + 1 < int (length (tokens l))
                    then id' (tokens l ! nat (lastPos l + 1)) else 0);
          secondID = (if lastPos l + 2 < int (length (tokens l))
                      then id' (tokens l ! nat (lastPos l + 2)) else 0);
          afterCommaOrParen = (prevID = rune CHR '','' \<or> prevID = rune CHR ''('');
          afterCommaOrOPTIONS = (prevID = rune CHR '','' \<or> prevID = K OPTIONS);
          afterCommaOrParenThenINVERTED =
            (prevID = K INVERTED \<and> (pprevID = rune CHR '','' \<or> pprevID = rune CHR ''(''));
          followedByParen = (nextID = rune CHR ''('');
          followedByNonPunctThenParen = (nextID > 255 \<and> secondID = rune CHR ''('')
      in
        if (afterCommaOrParen \<and> followedByParen) \<or>
           (afterCommaOrOPTIONS \<and> followedByParen) \<or>
           (afterCommaOrParenThenINVERTED \<and> followedByParen)
        then K INDEX_BEFORE_PAREN
        else if (afterCommaOrParen \<and> followedByNonPunctThenParen) \<or>
                (afterCommaOrParenThenINVERTED \<and> followedByNonPunctThenParen)
        then K INDEX_BEFORE_NAME_THEN_PAREN
        else
          (let afterCommaOrOrderBy =
                 (prevID = rune CHR '','' \<or> (prevID = K BY \<and> pprevID = K ORDER))
           in if afterCommaOrOrderBy
              then (if atSignAfterObjectName (tokens l) (lastPos l) (lastPos l + 1)
                    then K INDEX_AFTER_ORDER_BY_BEFORE_AT else cur)
              else cur))"

text \<open>
  \<^verbatim>\<open>case NOT, WITH, AS, ..., SET\<close>: the three tokens ahead (zero values where the array
  ends) and the inner switch on the identity.
\<close>

definition Lex_lookahead :: "(keyword \<Rightarrow> int) \<Rightarrow> lexer \<Rightarrow> int \<Rightarrow> int" where
  "Lex_lookahead K l cur =
     (let nextToken = (if lastPos l + 1 < int (length (tokens l))
                       then tokens l ! nat (lastPos l + 1) else zeroSym);
          secondToken = (if lastPos l + 2 < int (length (tokens l))
                         then tokens l ! nat (lastPos l + 2) else zeroSym);
          thirdToken = (if lastPos l + 3 < int (length (tokens l))
                        then tokens l ! nat (lastPos l + 3) else zeroSym)
      in
        if cur = K AS then
          (if id' nextToken = K OF then
             (if id' secondToken = K SYSTEM then K AS_LA else cur)
           else cur)
        else if cur = K NOT then
          (if id' nextToken \<in> {K BETWEEN, K IN, K LIKE, K ILIKE, K SIMILAR}
           then K NOT_LA else cur)
        else if cur = K GENERATED then
          (if id' nextToken = K ALWAYS then K GENERATED_ALWAYS
           else if id' nextToken = K BY then K GENERATED_BY_DEFAULT
           else cur)
        else if cur = K WITH then
          (if id' nextToken \<in> {K TIME, K ORDINALITY, K BUCKET_COUNT}
           then K WITH_LA else cur)
        else if cur = K NULLS then
          (if id' nextToken \<in> {K FIRST, K LAST} then K NULLS_LA else cur)
        else if cur = K RESET then
          (if id' nextToken = K ALL_kw then K RESET_ALL else cur)
        else if cur = K ROLE then
          (if id' nextToken = K ALL_kw then K ROLE_ALL else cur)
        else if cur = K USER then
          (if id' nextToken = K ALL_kw then K USER_ALL else cur)
        else if cur = K ON then
          (if id' nextToken = K DELETE then K ON_LA
           else if id' nextToken = K UPDATE then
             (if id' secondToken \<in> {K NO, K RESTRICT, K CASCADE, K SET}
              then K ON_LA else cur)
           else cur)
        else if cur = K TENANT then
          (if id' nextToken = K ALL_kw then K TENANT_ALL else cur)
        else if cur = K CLUSTER then
          (if id' nextToken = K ALL_kw then K CLUSTER_ALL else cur)
        else if cur = K SET then
          (if id' nextToken = K TRACING then
             (if str secondToken \<noteq> ''.'' then K SET_TRACING else cur)
           else if id' nextToken = K SESSION then
             (if id' secondToken = K TRACING then
                (if str thirdToken \<noteq> ''.'' then K SET_TRACING else cur)
              else cur)
           else cur)
        else cur)"

text \<open>The outer switch on \<^verbatim>\<open>lval.id\<close>; no case matching, the identity stays.\<close>

definition Lex_switch :: "(keyword \<Rightarrow> int) \<Rightarrow> lexer \<Rightarrow> int \<Rightarrow> int" where
  "Lex_switch K l cur =
     (if cur = K NOTHING then Lex_NOTHING K l cur
      else if cur = K INDEX then Lex_INDEX K l cur
      else if cur \<in> {K NOT, K WITH, K AS, K GENERATED, K NULLS, K RESET, K ROLE,
                       K USER, K ON, K TENANT, K CLUSTER, K SET}
      then Lex_lookahead K l cur
      else cur)"

text \<open>
  \<^verbatim>\<open>Lex\<close>: the state with the position advanced, the token written through \<^verbatim>\<open>lval\<close>
  and the returned identity. Past the end only the three fields of \<^verbatim>\<open>lval\<close> are
  assigned; in range the token of the array is copied to \<^verbatim>\<open>lval\<close> and the switch
  assigns to the identity of the copy. Indexing the token array below 0 panics.
\<close>

definition Lex :: "(keyword \<Rightarrow> int) \<Rightarrow> lexer \<Rightarrow> sqlSymType \<Rightarrow> panic + (lexer \<times> sqlSymType \<times> int)" where
  "Lex K l0 lval0 =
     (let l = l0\<lparr>lastPos := lastPos l0 + 1\<rparr> in
      if lastPos l \<ge> int (length (tokens l)) then
        Inr (l, lval0\<lparr>id' := 0, pos := int32 (int (length (in' l))), str := ''EOF''\<rparr>, 0)
      else if lastPos l < 0 then Inl IndexOutOfRange
      else
        (let lval = tokens l ! nat (lastPos l);
             lval = lval\<lparr>id' := Lex_switch K l (id' lval)\<rparr>
         in Inr (l, lval, id' lval)))"

definition lastToken :: "lexer \<Rightarrow> sqlSymType" where
  "lastToken l =
     (if lastPos l < 0 then zeroSym
      else if lastPos l \<ge> int (length (tokens l))
      then \<lparr>id' = 0, pos = int32 (int (length (in' l))), str = ''EOF''\<rparr>
      else tokens l ! nat (lastPos l))"

subsection \<open>The placeholder and annotation counters\<close>

text \<open>
  \<^verbatim>\<open>UpdateNumPlaceholders\<close> reads the zero-based index \<^verbatim>\<open>p.Idx\<close> of a placeholder, a value
  of an unsigned integer type.
\<close>

record Placeholder =
  Idx :: nat

definition UpdateNumPlaceholders :: "lexer \<Rightarrow> Placeholder \<Rightarrow> lexer" where
  "UpdateNumPlaceholders l p =
     (let n = int (Idx p) + 1 in
      if numPlaceholders l < n then l\<lparr>numPlaceholders := n\<rparr> else l)"

section \<open>Diagnostics\<close>

subsection \<open>String functions of the Go library\<close>

text \<open>\<^verbatim>\<open>strings.IndexByte\<close>: the index of the first occurrence, or -1.\<close>

fun IndexByte :: "string \<Rightarrow> char \<Rightarrow> int" where
  "IndexByte [] c = - 1"
| "IndexByte (x # xs) c =
     (if x = c then 0 else (let r = IndexByte xs c in if r = - 1 then - 1 else r + 1))"

text \<open>\<^verbatim>\<open>strings.LastIndexByte\<close>: the index of the last occurrence, or -1.\<close>

definition LastIndexByte :: "string \<Rightarrow> char \<Rightarrow> int" where
  "LastIndexByte s c =
     (let r = IndexByte (rev s) c in if r = - 1 then - 1 else int (length s) - 1 - r)"

text \<open>\<^verbatim>\<open>strings.Contains\<close>, \<^verbatim>\<open>strings.TrimPrefix\<close> and \<^verbatim>\<open>strings.Repeat\<close>.\<close>

fun Contains :: "string \<Rightarrow> string \<Rightarrow> bool" where
  "Contains [] substr = (substr = [])"
| "Contains (c # cs) substr = (prefix substr (c # cs) \<or> Contains cs substr)"

definition TrimPrefix :: "string \<Rightarrow> string \<Rightarrow> string" where
  "TrimPrefix s p = (if prefix p s then drop (length p) s else s)"

definition Repeat :: "string \<Rightarrow> nat \<Rightarrow> string" where
  "Repeat s n = concat (replicate n s)"

subsection \<open>PopulateErrorDetails\<close>

text \<open>
  The first statement of \<^verbatim>\<open>PopulateErrorDetails\<close>: the classification of the failure and
  the value of \<^verbatim>\<open>retErr\<close>. The text of the token is the \<^verbatim>\<open>%s\<close> argument of both
  formats. Calling \<^verbatim>\<open>Error()\<close> on a \<^verbatim>\<open>nil\<close> error panics.
\<close>

definition PopulateErrorDetails_retErr ::
  "(keyword \<Rightarrow> int) \<Rightarrow> (string \<Rightarrow> string) \<Rightarrow> int \<Rightarrow> string \<Rightarrow> error option
     \<Rightarrow> panic + error option" where
  "PopulateErrorDetails_retErr K P tokID lastTokStr lastErr =
     (if tokID = K ERROR then
        (let err = pgerror_WithCandidateCode
                     (Some (New (''lexical error: '' @ EscapeMarkers lastTokStr))) Syntax
         in Inr (errors_WithSecondaryError err lastErr))
      else
        (case lastErr of
           None \<Rightarrow> Inl NilDereference
         | Some e \<Rightarrow>
             (let lastErr' = (if \<not> Contains (Error P e) ''syntax error''
                              then errors_Wrap lastErr ''syntax error'' else lastErr)
              in Inr (errors_Wrap lastErr'
                        (''at or near '' @ [dq] @ EscapeMarkers lastTokStr @ [dq])))))"

text \<open>
  The rest of \<^verbatim>\<open>PopulateErrorDetails\<close>: the text written to the buffer. Slicing the
  input outside its bounds and repeating a string a negative number of times panic.
\<close>

definition PopulateErrorDetails_buf :: "int \<Rightarrow> string \<Rightarrow> panic + string" where
  "PopulateErrorDetails_buf lastTokPos lIn =
     (if lastTokPos < 0 \<or> int (length lIn) < lastTokPos then Inl SliceOutOfRange
      else
        (let i = IndexByte (drop (nat lastTokPos) lIn) nl;
             i = (if i = - 1 then int (length lIn) else i + lastTokPos);
             j = LastIndexByte (take (nat lastTokPos) lIn) nl + 1
         in if lastTokPos - j < 0 then Inl NegativeRepeat
            else Inr (''source SQL:'' @ [nl] @ take (nat i) lIn @ [nl] @
                      Repeat '' '' (nat (lastTokPos - j)) @ ''^'')))"

definition PopulateErrorDetails ::
  "(keyword \<Rightarrow> int) \<Rightarrow> (string \<Rightarrow> string) \<Rightarrow> int \<Rightarrow> string \<Rightarrow> int \<Rightarrow> error option \<Rightarrow> string
     \<Rightarrow> panic + error option" where
  "PopulateErrorDetails K P tokID lastTokStr lastTokPos lastErr lIn =
     (case PopulateErrorDetails_retErr K P tokID lastTokStr lastErr of
        Inl p \<Rightarrow> Inl p
      | Inr retErr \<Rightarrow>
          (case PopulateErrorDetails_buf lastTokPos lIn of
             Inl p \<Rightarrow> Inl p
           | Inr buf \<Rightarrow> Inr (errors_WithDetail retErr buf)))"

definition populateErrorDetails ::
  "(keyword \<Rightarrow> int) \<Rightarrow> (string \<Rightarrow> string) \<Rightarrow> lexer \<Rightarrow> panic + lexer" where
  "populateErrorDetails K P l =
     (let lastTok = lastToken l in
      case PopulateErrorDetails K P (id' lastTok) (str lastTok) (pos lastTok) (lastError l) (in' l) of
        Inl p \<Rightarrow> Inl p
      | Inr e \<Rightarrow> Inr (l\<lparr>lastError := e\<rparr>))"

text \<open>
  \<^verbatim>\<open>setErr\<close>, \<^verbatim>\<open>setErrNoDetails\<close> and \<^verbatim>\<open>Error\<close> of the lexer; the message of the
  latter is the \<^verbatim>\<open>%s\<close> argument of \<^verbatim>\<open>errors.Newf\<close>.
\<close>

definition setErr ::
  "(keyword \<Rightarrow> int) \<Rightarrow> (string \<Rightarrow> string) \<Rightarrow> lexer \<Rightarrow> error option \<Rightarrow> panic + lexer" where
  "setErr K P l err =
     populateErrorDetails K P (l\<lparr>lastError := pgerror_WithCandidateCode err Syntax\<rparr>)"

definition setErrNoDetails :: "lexer \<Rightarrow> error option \<Rightarrow> lexer" where
  "setErrNoDetails l err = l\<lparr>lastError := pgerror_WithCandidateCode err Syntax\<rparr>"

definition lexer_Error ::
  "(keyword \<Rightarrow> int) \<Rightarrow> (string \<Rightarrow> string) \<Rightarrow> lexer \<Rightarrow> string \<Rightarrow> panic + lexer" where
  "lexer_Error K P l e =
     (let e' = TrimPrefix e ''syntax error: '' in
      populateErrorDetails K P
        (l\<lparr>lastError := pgerror_WithCandidateCode (Some (New (EscapeMarkers e'))) Syntax\<rparr>))"

subsection \<open>SetHelp\<close>

text \<open>
  A help message carries the command or the function it documents; its rendering
  \<^verbatim>\<open>msg.String()\<close> is defined elsewhere and is the parameter \<open>render\<close>.
\<close>

record HelpMessage =
  Command :: string
  Function :: string

definition specialHelpErrorPrefix :: string where
  "specialHelpErrorPrefix = ''help token in input''"

definition populateHelpMsg :: "lexer \<Rightarrow> string \<Rightarrow> lexer" where
  "populateHelpMsg l msg =
     l\<lparr>lastError := errors_WithHint (errors_Wrap (lastError l) specialHelpErrorPrefix) msg\<rparr>"

definition SetHelp ::
  "(keyword \<Rightarrow> int) \<Rightarrow> (HelpMessage \<Rightarrow> string) \<Rightarrow> lexer \<Rightarrow> HelpMessage \<Rightarrow> lexer" where
  "SetHelp K render l0 msg =
     (let l = (if lastError l0 = None
               then l0\<lparr>lastError := pgerror_WithCandidateCode (Some (New ''help request'')) Syntax\<rparr>
               else l0);
          lastTok = lastToken l
      in if id' lastTok = K HELPTOKEN then populateHelpMsg l (render msg)
         else if Command msg \<noteq> []
         then l\<lparr>lastError := errors_WithHint (lastError l) (''try '' @ [bs] @ ''h '' @ Command msg)\<rparr>
         else l\<lparr>lastError := errors_WithHint (lastError l) (''try '' @ [bs] @ ''hf '' @ Function msg)\<rparr>)"

section \<open>The token cursor of the specification\<close>

text \<open>
  The specification describes the neighbours of the current token through \<open>peek\<close>: the
  token \<open>k\<close> places from the position, or the end-of-input token (identity 0, offset the
  length of the source text, text EOF) where there is none. The theorems below name the
  neighbours of a token this way.
\<close>

definition peek :: "lexer \<Rightarrow> int \<Rightarrow> sqlSymType" where
  "peek l k =
     (if 0 \<le> lastPos l + k \<and> lastPos l + k < int (length (tokens l))
      then tokens l ! nat (lastPos l + k)
      else \<lparr>id' = 0, pos = int (length (in' l)), str = ''EOF''\<rparr>)"

text \<open>The conditions of the INDEX rules on the tokens before the position.\<close>

definition afterCommaParenOrInverted :: "(keyword \<Rightarrow> int) \<Rightarrow> lexer \<Rightarrow> bool" where
  "afterCommaParenOrInverted K l \<longleftrightarrow>
     id' (peek l (- 1)) = rune CHR '','' \<or> id' (peek l (- 1)) = rune CHR ''('' \<or>
     (id' (peek l (- 1)) = K INVERTED \<and>
      (id' (peek l (- 2)) = rune CHR '','' \<or> id' (peek l (- 2)) = rune CHR ''(''))"

section \<open>Example inputs\<close>

text \<open>
  Token arrays as the scanner produces them for a few statements, under the numbering
  \<open>yycode\<close>; \<open>ident_code\<close> stands for the code of an identifier or constant token. Each
  state is the lexer before the call of \<^verbatim>\<open>Lex\<close> that the example is about.
\<close>

definition ident_code :: int where
  "ident_code = 57405"

definition mk_lexer :: "string \<Rightarrow> sqlSymType list \<Rightarrow> int \<Rightarrow> lexer" where
  "mk_lexer sql toks p =
     \<lparr>in' = sql, tokens = toks, lastPos = p,
      numPlaceholders = 0, numAnnotations = 0, lastError = None\<rparr>"

definition ex_returning :: lexer where
  "ex_returning = mk_lexer ''RETURNING NOTHING''
     [\<lparr>id' = yycode RETURNING, pos = 0, str = ''RETURNING''\<rparr>,
      \<lparr>id' = yycode NOTHING, pos = 10, str = ''NOTHING''\<rparr>] 0"

definition ex_scrub :: lexer where
  "ex_scrub = mk_lexer ''OPTIONS INDEX abc (''
     [\<lparr>id' = yycode OPTIONS, pos = 0, str = ''OPTIONS''\<rparr>,
      \<lparr>id' = yycode INDEX, pos = 8, str = ''INDEX''\<rparr>,
      \<lparr>id' = ident_code, pos = 14, str = ''abc''\<rparr>,
      \<lparr>id' = rune CHR ''('', pos = 18, str = ''(''\<rparr>] 0"

definition ex_create :: lexer where
  "ex_create = mk_lexer ''(INVERTED INDEX abc (''
     [\<lparr>id' = rune CHR ''('', pos = 0, str = ''(''\<rparr>,
      \<lparr>id' = yycode INVERTED, pos = 1, str = ''INVERTED''\<rparr>,
      \<lparr>id' = yycode INDEX, pos = 10, str = ''INDEX''\<rparr>,
      \<lparr>id' = ident_code, pos = 16, str = ''abc''\<rparr>,
      \<lparr>id' = rune CHR ''('', pos = 20, str = ''(''\<rparr>] 1"

definition ex_order_by :: lexer where
  "ex_order_by = mk_lexer ''ORDER BY index t.a@idx''
     [\<lparr>id' = yycode ORDER, pos = 0, str = ''ORDER''\<rparr>,
      \<lparr>id' = yycode BY, pos = 6, str = ''BY''\<rparr>,
      \<lparr>id' = yycode INDEX, pos = 9, str = ''index''\<rparr>,
      \<lparr>id' = ident_code, pos = 15, str = ''t''\<rparr>,
      \<lparr>id' = rune CHR ''.'', pos = 16, str = ''.''\<rparr>,
      \<lparr>id' = ident_code, pos = 17, str = ''a''\<rparr>,
      \<lparr>id' = rune CHR ''@'', pos = 18, str = ''@''\<rparr>,
      \<lparr>id' = ident_code, pos = 19, str = ''idx''\<rparr>] 1"

definition ex_order_by_plain :: lexer where
  "ex_order_by_plain = mk_lexer ''ORDER BY index''
     [\<lparr>id' = yycode ORDER, pos = 0, str = ''ORDER''\<rparr>,
      \<lparr>id' = yycode BY, pos = 6, str = ''BY''\<rparr>,
      \<lparr>id' = yycode INDEX, pos = 9, str = ''index''\<rparr>] 1"

definition ex_coldef :: lexer where
  "ex_coldef = mk_lexer '', INDEX (x)''
     [\<lparr>id' = rune CHR '','', pos = 0, str = '',''\<rparr>,
      \<lparr>id' = yycode INDEX, pos = 2, str = ''INDEX''\<rparr>,
      \<lparr>id' = rune CHR ''('', pos = 8, str = ''(''\<rparr>,
      \<lparr>id' = ident_code, pos = 9, str = ''x''\<rparr>,
      \<lparr>id' = rune CHR '')'', pos = 10, str = '')''\<rparr>] 0"

definition ex_set_dotted :: lexer where
  "ex_set_dotted = mk_lexer ''SET tracing.custom = 1''
     [\<lparr>id' = yycode SET, pos = 0, str = ''SET''\<rparr>,
      \<lparr>id' = yycode TRACING, pos = 4, str = ''tracing''\<rparr>,
      \<lparr>id' = rune CHR ''.'', pos = 11, str = ''.''\<rparr>,
      \<lparr>id' = ident_code, pos = 12, str = ''custom''\<rparr>,
      \<lparr>id' = rune CHR ''='', pos = 19, str = ''=''\<rparr>,
      \<lparr>id' = ident_code, pos = 21, str = ''1''\<rparr>] (- 1)"

definition ex_set_tracing :: lexer where
  "ex_set_tracing = mk_lexer (''SET TRACING = '' @ [CHR 0x27] @ ''on'' @ [CHR 0x27])
     [\<lparr>id' = yycode SET, pos = 0, str = ''SET''\<rparr>,
      \<lparr>id' = yycode TRACING, pos = 4, str = ''TRACING''\<rparr>,
      \<lparr>id' = rune CHR ''='', pos = 12, str = ''=''\<rparr>,
      \<lparr>id' = ident_code, pos = 14, str = ''on''\<rparr>] (- 1)"

definition ex_as_of :: lexer where
  "ex_as_of = mk_lexer ''AS OF''
     [\<lparr>id' = yycode AS, pos = 0, str = ''AS''\<rparr>,
      \<lparr>id' = yycode OF, pos = 3, str = ''OF''\<rparr>] (- 1)"

text \<open>
  A lexer without tokens over a source text of \<open>2^31\<close> blanks, and the text of an
  identifier that ends in the character U+2039.
\<close>

definition ex_huge :: lexer where
  "ex_huge = mk_lexer (replicate (2 ^ 31) CHR '' '') [] (- 1)"


definition ex_help :: lexer where
  "ex_help = (mk_lexer ''SELECT ??''
     [\<lparr>id' = ident_code, pos = 0, str = ''SELECT''\<rparr>,
      \<lparr>id' = yycode HELPTOKEN, pos = 7, str = ''??''\<rparr>] 1)
     \<lparr>lastError := Some (New ''syntax error'')\<rparr>"

definition ex_two_lines :: string where
  "ex_two_lines = ''SELECT'' @ [nl] @ ''a + b c'' @ [nl] @ ''FROM t''"

definition ex_fresh :: lexer where
  "ex_fresh = (mk_lexer (''SELEC 1'' @ [nl] @ ''FROM t'')
     [\<lparr>id' = ident_code, pos = 0, str = ''SELEC''\<rparr>,
      \<lparr>id' = ident_code, pos = 6, str = ''1''\<rparr>] (- 1))
     \<lparr>lastError := Some (New ''syntax error'')\<rparr>"

section \<open>Properties\<close>

subsection \<open>Terminal codes and neighbours\<close>

lemma wf_codes_yycode: "wf_codes yycode"
proof -
  have d: "distinct kwlist" by (simp add: kwlist_def)
  have a: "k \<in> set kwlist" for k by (cases k) (simp_all add: kwlist_def)
  have i: "index_of xs x = index_of xs y \<Longrightarrow> x \<in> set xs \<Longrightarrow> x = y"
    for xs :: "keyword list" and x y
    by (induction xs) (auto split: if_splits)
  have "inj yycode"
    by (rule injI) (use i a in \<open>auto simp: yycode_def\<close>)
  then show ?thesis by (simp add: wf_codes_def yycode_def)
qed

lemma rune_simps [simp]:
  "rune CHR '','' = 44" "rune CHR ''('' = 40" "rune CHR ''.'' = 46" "rune CHR ''@'' = 64"
  "rune CHR '')'' = 41" "rune CHR ''='' = 61"
  by (simp_all add: rune_def)

lemma wf_codes_neq: "wf_codes K \<Longrightarrow> (K a = K b) = (a = b)"
  by (auto simp: wf_codes_def inj_def)

lemma wf_codes_gt: "wf_codes K \<Longrightarrow> 255 < K a"
  by (simp add: wf_codes_def)

lemma wf_codes_punct:
  assumes "wf_codes K"
  shows "K a \<noteq> 0" "K a \<noteq> 40" "K a \<noteq> 44" "K a \<noteq> 46" "K a \<noteq> 64"
    "0 \<noteq> K a" "40 \<noteq> K a" "44 \<noteq> K a" "46 \<noteq> K a" "64 \<noteq> K a"
  using wf_codes_gt [OF assms, of a] by simp_all

lemma peek_0:
  "0 \<le> lastPos l \<Longrightarrow> lastPos l < int (length (tokens l)) \<Longrightarrow> peek l 0 = tokens l ! nat (lastPos l)"
  by (simp add: peek_def)

lemma peek_prev:
  assumes "lastPos l < int (length (tokens l))"
  shows "(if lastPos l > 0 then id' (tokens l ! nat (lastPos l - 1)) else 0) = id' (peek l (- 1))"
    and "(if lastPos l > 1 then id' (tokens l ! nat (lastPos l - 2)) else 0) = id' (peek l (- 2))"
  using assms by (auto simp: peek_def)

lemma peek_next:
  assumes "0 \<le> lastPos l"
  shows "(if lastPos l + 1 < int (length (tokens l))
          then id' (tokens l ! nat (lastPos l + 1)) else 0) = id' (peek l 1)"
    and "(if lastPos l + 2 < int (length (tokens l))
          then id' (tokens l ! nat (lastPos l + 2)) else 0) = id' (peek l 2)"
  using assms by (auto simp: peek_def)

subsection \<open>Lex in range and past the end\<close>

lemma Lex_in_range:
  assumes "0 \<le> lastPos l + 1" "lastPos l + 1 < int (length (tokens l))"
  shows "Lex K l lv =
    Inr (l\<lparr>lastPos := lastPos l + 1\<rparr>,
         (tokens l ! nat (lastPos l + 1))
            \<lparr>id' := Lex_switch K (l\<lparr>lastPos := lastPos l + 1\<rparr>)
                      (id' (tokens l ! nat (lastPos l + 1)))\<rparr>,
         Lex_switch K (l\<lparr>lastPos := lastPos l + 1\<rparr>) (id' (tokens l ! nat (lastPos l + 1))))"
  using assms by (simp add: Lex_def Let_def)

lemma Lex_past_end:
  assumes "int (length (tokens l)) \<le> lastPos l + 1"
  shows "Lex K l lv =
    Inr (l\<lparr>lastPos := lastPos l + 1\<rparr>,
         \<lparr>id' = 0, pos = int32 (int (length (in' l))), str = ''EOF''\<rparr>, 0)"
  using assms by (simp add: Lex_def Let_def)

lemma int32_small: "0 \<le> n \<Longrightarrow> n < 2 ^ 31 \<Longrightarrow> int32 n = n"
  by (simp add: int32_def)

lemma yycode_simps:
  "yycode NOTHING = 57346" "yycode RETURNING = 57347" "yycode NOTHING_AFTER_RETURNING = 57348"
  "yycode INDEX = 57349" "yycode OPTIONS = 57350" "yycode INVERTED = 57351"
  "yycode INDEX_BEFORE_PAREN = 57352" "yycode INDEX_BEFORE_NAME_THEN_PAREN = 57353"
  "yycode BY = 57354" "yycode ORDER = 57355" "yycode INDEX_AFTER_ORDER_BY_BEFORE_AT = 57356"
  "yycode NOT = 57357" "yycode WITH = 57358" "yycode AS = 57359" "yycode GENERATED = 57360"
  "yycode NULLS = 57361" "yycode RESET = 57362" "yycode ROLE = 57363" "yycode USER = 57364"
  "yycode ON = 57365" "yycode TENANT = 57366" "yycode CLUSTER = 57367" "yycode SET = 57368"
  "yycode OF = 57369" "yycode SYSTEM = 57370" "yycode AS_LA = 57371"
  "yycode TRACING = 57400" "yycode SESSION = 57401" "yycode SET_TRACING = 57402"
  "yycode ERROR = 57403" "yycode HELPTOKEN = 57404"
  by (simp_all add: yycode_def kwlist_def)

lemmas ex_defs = mk_lexer_def peek_def yycode_simps ident_code_def afterCommaParenOrInverted_def

text \<open>
  C7. A call of Lex in range returns: the text and the source offset of the returned token
  are those of the token of the array at the new position, the returned token differs from
  it at most in the identity, which is the returned value, and the token array and the
  source text of the lexer are as before.
\<close>

theorem Lex_preserves_text_and_offset:
  assumes "0 \<le> lastPos l + 1" and "lastPos l + 1 < int (length (tokens l))"
  shows "\<exists>l' lval' r. Lex K l lval = Inr (l', lval', r) \<and>
           lastPos l' = lastPos l + 1 \<and>
           str lval' = str (tokens l ! nat (lastPos l')) \<and>
           pos lval' = pos (tokens l ! nat (lastPos l')) \<and>
           lval' = (tokens l ! nat (lastPos l'))\<lparr>id' := r\<rparr> \<and>
           tokens l' = tokens l \<and> in' l' = in' l"
  using Lex_in_range [OF assms, of K lval] by simp

theorem Lex_preserves_text_and_offset_witness:
  "0 \<le> lastPos ex_returning + 1 \<and>
   lastPos ex_returning + 1 < int (length (tokens ex_returning)) \<and>
   Lex yycode ex_returning zeroSym =
     Inr (ex_returning\<lparr>lastPos := 1\<rparr>,
          \<lparr>id' = yycode NOTHING_AFTER_RETURNING, pos = 10, str = ''NOTHING''\<rparr>,
          yycode NOTHING_AFTER_RETURNING) \<and>
   tokens (ex_returning\<lparr>lastPos := 1\<rparr>) = tokens ex_returning"
proof -
  have a: "0 \<le> lastPos ex_returning + 1"
    by (simp add: ex_returning_def mk_lexer_def)
  have b: "lastPos ex_returning + 1 < int (length (tokens ex_returning))"
    by (simp add: ex_returning_def mk_lexer_def)
  have c: "Lex yycode ex_returning zeroSym =
     Inr (ex_returning\<lparr>lastPos := 1\<rparr>,
          \<lparr>id' = yycode NOTHING_AFTER_RETURNING, pos = 10, str = ''NOTHING''\<rparr>,
          yycode NOTHING_AFTER_RETURNING)"
    by (simp add: Lex_def Let_def ex_returning_def mk_lexer_def Lex_switch_def Lex_NOTHING_def)
  show ?thesis
    using a b c Lex_preserves_text_and_offset [OF a b, of yycode zeroSym] by simp
qed

subsection \<open>The switch at the end of the input\<close>

lemma scan_unfold:
  "atSignAfterObjectName toks lp i =
     (if i < int (length toks) \<and> i < lp + 7 then
        (if id' (toks ! nat i) < 255 \<and> id' (toks ! nat i) \<noteq> 46 \<and> id' (toks ! nat i) \<noteq> 64 then False
         else if id' (toks ! nat i) = 64 then i \<noteq> lp + 1
         else atSignAfterObjectName toks lp (i + 1))
      else False)"
  by (subst atSignAfterObjectName.simps) (simp add: Let_def)

lemma Lex_switch_zero: "wf_codes K \<Longrightarrow> Lex_switch K l 0 = 0"
  using wf_codes_punct(6) [of K] by (simp add: Lex_switch_def)

lemma Lex_NOTHING_prev_zero:
  "wf_codes K \<Longrightarrow> lastPos l < int (length (tokens l)) \<Longrightarrow> id' (peek l (- 1)) = 0 \<Longrightarrow> Lex_NOTHING K l cur = cur"
  using wf_codes_punct(6) [of K RETURNING] by (auto simp: Lex_NOTHING_def peek_def split: if_splits)

lemma Lex_INDEX_next_zero:
  assumes "wf_codes K" "0 \<le> lastPos l" "id' (peek l 1) = 0"
  shows "Lex_INDEX K l cur = cur"
proof -
  have n: "(if lastPos l + 1 < int (length (tokens l))
          then id' (tokens l ! nat (lastPos l + 1)) else 0) = 0"
    using peek_next(1) [OF assms(2)] assms(3) by simp
  have "\<not> atSignAfterObjectName (tokens l) (lastPos l) (lastPos l + 1)"
    using n scan_unfold [of "tokens l" "lastPos l" "lastPos l + 1"] by (auto split: if_splits)
  then show ?thesis
    unfolding Lex_INDEX_def Let_def n by simp
qed

lemma Lex_lookahead_next_zero:
  assumes "wf_codes K" "0 \<le> lastPos l" "id' (peek l 1) = 0"
  shows "Lex_lookahead K l cur = cur"
proof -
  have n: "id' (if lastPos l + 1 < int (length (tokens l))
          then tokens l ! nat (lastPos l + 1) else zeroSym) = 0"
    using assms(2,3) by (auto simp: peek_def zeroSym_def split: if_splits)
  show ?thesis
    unfolding Lex_lookahead_def Let_def n
    using wf_codes_punct(6) [OF assms(1)] by simp
qed


lemma Lex_switch_next_zero:
  assumes "wf_codes K" "0 \<le> lastPos l" "id' (peek l 1) = 0" "cur \<noteq> K NOTHING"
  shows "Lex_switch K l cur = cur"
  unfolding Lex_switch_def Lex_INDEX_next_zero [OF assms(1-3)] Lex_lookahead_next_zero [OF assms(1-3)]
  using assms(4) by simp

lemma Lex_at:
  assumes "0 \<le> lastPos l" "lastPos l < int (length (tokens l))"
  shows "Lex K (l\<lparr>lastPos := lastPos l - 1\<rparr>) lv =
    Inr (l, (peek l 0)\<lparr>id' := Lex_switch K l (id' (peek l 0))\<rparr>, Lex_switch K l (id' (peek l 0)))"
  using assms Lex_in_range [of "l\<lparr>lastPos := lastPos l - 1\<rparr>" K lv]
  by (simp add: peek_def)

lemma Lex_at_unchanged:
  assumes "0 \<le> lastPos l" "lastPos l < int (length (tokens l))"
    and "Lex_switch K l (id' (peek l 0)) = id' (peek l 0)"
  shows "Lex K (l\<lparr>lastPos := lastPos l - 1\<rparr>) lv = Inr (l, peek l 0, id' (peek l 0))"
  using Lex_at [OF assms(1,2), of K lv] assms(3) by simp

subsection \<open>The INDEX rules\<close>

lemma scan_iff:
  "0 \<le> i \<Longrightarrow> atSignAfterObjectName toks lp i \<longleftrightarrow>
     (\<exists>j. i \<le> j \<and> j < int (length toks) \<and> j < lp + 7 \<and> j \<noteq> lp + 1 \<and> id' (toks ! nat j) = 64 \<and>
          (\<forall>m. i \<le> m \<and> m < j \<longrightarrow> 255 \<le> id' (toks ! nat m) \<or> id' (toks ! nat m) = 46))"
proof (induction toks lp i rule: atSignAfterObjectName.induct)
  case (1 toks lp i)
  let ?R = "\<lambda>i. \<exists>j. i \<le> j \<and> j < int (length toks) \<and> j < lp + 7 \<and> j \<noteq> lp + 1 \<and> id' (toks ! nat j) = 64 \<and>
          (\<forall>m. i \<le> m \<and> m < j \<longrightarrow> 255 \<le> id' (toks ! nat m) \<or> id' (toks ! nat m) = 46)"
  let ?c = "id' (toks ! nat i)"
  show ?case
  proof (cases "i < int (length toks) \<and> i < lp + 7")
    case False
    then have "\<not> atSignAfterObjectName toks lp i"
      using scan_unfold [of toks lp i] by auto
    moreover from False have "\<not> ?R i" by auto
    ultimately show ?thesis by blast
  next
    case rng: True
    consider (stop) "?c < 255" "?c \<noteq> 46" "?c \<noteq> 64" | (at) "?c = 64" | (go) "?c \<noteq> 64" "255 \<le> ?c \<or> ?c = 46"
      by linarith
    then show ?thesis
    proof cases
      case stop
      then have "\<not> atSignAfterObjectName toks lp i"
        using rng scan_unfold [of toks lp i] by auto
      moreover have "\<not> ?R i"
      proof
        assume "?R i"
        then obtain j where j: "i \<le> j" "id' (toks ! nat j) = 64"
          "\<forall>m. i \<le> m \<and> m < j \<longrightarrow> 255 \<le> id' (toks ! nat m) \<or> id' (toks ! nat m) = 46" by blast
        show False
        proof (cases "j = i")
          case True with j stop show False by simp
        next
          case False
          with j have "255 \<le> ?c \<or> ?c = 46" by simp
          with stop show False by simp
        qed
      qed
      ultimately show ?thesis by blast
    next
      case at
      then have l: "atSignAfterObjectName toks lp i \<longleftrightarrow> i \<noteq> lp + 1"
        using rng scan_unfold [of toks lp i] by auto
      have "?R i \<longleftrightarrow> i \<noteq> lp + 1"
      proof
        assume "?R i"
        then obtain j where j: "i \<le> j" "j \<noteq> lp + 1" "id' (toks ! nat j) = 64"
          "\<forall>m. i \<le> m \<and> m < j \<longrightarrow> 255 \<le> id' (toks ! nat m) \<or> id' (toks ! nat m) = 46" by blast
        have "j = i"
        proof (rule ccontr)
          assume "j \<noteq> i"
          with j have "255 \<le> ?c \<or> ?c = 46" by simp
          with at show False by simp
        qed
        with j show "i \<noteq> lp + 1" by simp
      next
        assume "i \<noteq> lp + 1"
        with rng at show "?R i" by (intro exI [of _ i]) simp
      qed
      with l show ?thesis by blast
    next
      case go
      then have l: "atSignAfterObjectName toks lp i \<longleftrightarrow> atSignAfterObjectName toks lp (i + 1)"
        using rng scan_unfold [of toks lp i] by auto
      have ih: "atSignAfterObjectName toks lp (i + 1) \<longleftrightarrow> ?R (i + 1)"
        using "1.IH" [OF rng refl] go "1.prems" by auto
      have "?R i \<longleftrightarrow> ?R (i + 1)"
      proof
        assume "?R i"
        then obtain j where j: "i \<le> j" "j < int (length toks)" "j < lp + 7" "j \<noteq> lp + 1" "id' (toks ! nat j) = 64"
          "\<forall>m. i \<le> m \<and> m < j \<longrightarrow> 255 \<le> id' (toks ! nat m) \<or> id' (toks ! nat m) = 46" by blast
        from j go have "j \<noteq> i" by auto
        with j have "i + 1 \<le> j" by simp
        with j show "?R (i + 1)" by (intro exI [of _ j]) simp
      next
        assume "?R (i + 1)"
        then obtain j where j: "i + 1 \<le> j" "j < int (length toks)" "j < lp + 7" "j \<noteq> lp + 1" "id' (toks ! nat j) = 64"
          "\<forall>m. i + 1 \<le> m \<and> m < j \<longrightarrow> 255 \<le> id' (toks ! nat m) \<or> id' (toks ! nat m) = 46" by blast
        have "\<forall>m. i \<le> m \<and> m < j \<longrightarrow> 255 \<le> id' (toks ! nat m) \<or> id' (toks ! nat m) = 46"
        proof (intro allI impI)
          fix m assume m: "i \<le> m \<and> m < j"
          show "255 \<le> id' (toks ! nat m) \<or> id' (toks ! nat m) = 46"
          proof (cases "m = i")
            case True with go show ?thesis by simp
          next
            case False with m j show ?thesis by simp
          qed
        qed
        with j show "?R i" by (intro exI [of _ j]) simp
      qed
      with l ih show ?thesis by blast
    qed
  qed
qed

lemma scan_peek:
  assumes "0 \<le> lastPos l"
  shows "atSignAfterObjectName (tokens l) (lastPos l) (lastPos l + 1) \<longleftrightarrow>
     (\<exists>k\<in>{2..6}. id' (peek l k) = rune CHR ''@'' \<and>
        (\<forall>m\<in>{1..<k}. 255 \<le> id' (peek l m) \<or> id' (peek l m) = rune CHR ''.''))"
    (is "?L \<longleftrightarrow> ?R")
proof
  assume ?L
  then obtain j where j: "lastPos l + 1 \<le> j" "j < int (length (tokens l))" "j < lastPos l + 7"
      "j \<noteq> lastPos l + 1" "id' (tokens l ! nat j) = 64"
      "\<forall>m. lastPos l + 1 \<le> m \<and> m < j \<longrightarrow> 255 \<le> id' (tokens l ! nat m) \<or> id' (tokens l ! nat m) = 46"
    using scan_iff [of "lastPos l + 1" "tokens l" "lastPos l"] assms by auto
  let ?k = "j - lastPos l"
  have k: "?k \<in> {2..6}" using j by auto
  have pk: "id' (peek l ?k) = rune CHR ''@''" using j assms by (simp add: peek_def)
  have "255 \<le> id' (peek l m) \<or> id' (peek l m) = rune CHR ''.''" if "m \<in> {1..<?k}" for m
  proof -
    from that have "lastPos l + 1 \<le> lastPos l + m \<and> lastPos l + m < j" by auto
    with j have "255 \<le> id' (tokens l ! nat (lastPos l + m)) \<or> id' (tokens l ! nat (lastPos l + m)) = 46"
      by blast
    moreover have "peek l m = tokens l ! nat (lastPos l + m)"
      using that j assms by (simp add: peek_def)
    ultimately show ?thesis by simp
  qed
  with k pk show ?R by blast
next
  assume ?R
  then obtain k where k: "k \<in> {2..6}" "id' (peek l k) = rune CHR ''@''"
     "\<forall>m\<in>{1..<k}. 255 \<le> id' (peek l m) \<or> id' (peek l m) = rune CHR ''.''" by blast
  have rng: "lastPos l + k < int (length (tokens l))"
    using k by (auto simp: peek_def split: if_splits)
  have "\<forall>m. lastPos l + 1 \<le> m \<and> m < lastPos l + k \<longrightarrow>
          255 \<le> id' (tokens l ! nat m) \<or> id' (tokens l ! nat m) = 46"
  proof (intro allI impI)
    fix m assume m: "lastPos l + 1 \<le> m \<and> m < lastPos l + k"
    then have "m - lastPos l \<in> {1..<k}" by auto
    with k have "255 \<le> id' (peek l (m - lastPos l)) \<or> id' (peek l (m - lastPos l)) = rune CHR ''.''"
      by blast
    moreover have "peek l (m - lastPos l) = tokens l ! nat m"
      using m rng assms by (simp add: peek_def)
    ultimately show "255 \<le> id' (tokens l ! nat m) \<or> id' (tokens l ! nat m) = 46" by simp
  qed
  moreover have "id' (tokens l ! nat (lastPos l + k)) = 64"
    using k rng assms by (simp add: peek_def)
  ultimately have "\<exists>j. lastPos l + 1 \<le> j \<and> j < int (length (tokens l)) \<and> j < lastPos l + 7 \<and>
      j \<noteq> lastPos l + 1 \<and> id' (tokens l ! nat j) = 64 \<and>
      (\<forall>m. lastPos l + 1 \<le> m \<and> m < j \<longrightarrow> 255 \<le> id' (tokens l ! nat m) \<or> id' (tokens l ! nat m) = 46)"
    using k rng by (intro exI [of _ "lastPos l + k"]) auto
  then show ?L
    using scan_iff [of "lastPos l + 1" "tokens l" "lastPos l"] assms by auto
qed

lemma INDEX_if_chain:
  "(if (a \<or> b) \<and> n \<or> (a \<or> o') \<and> n \<or> (i \<and> p) \<and> n then x
    else if (a \<or> b) \<and> q \<or> (i \<and> p) \<and> q then y
    else if c then (if s then z else w) else w) =
   (if ((a \<or> b \<or> (i \<and> p)) \<or> o') \<and> n then x
    else if (a \<or> b \<or> (i \<and> p)) \<and> q then y
    else if c \<and> s then z else w)"
  by (cases n; cases q; cases c; cases s; cases a; cases b; cases o'; simp)

lemma Lex_INDEX_peek:
  assumes "0 \<le> lastPos l" "lastPos l < int (length (tokens l))"
  shows "Lex_INDEX K l cur =
    (if (afterCommaParenOrInverted K l \<or> id' (peek l (- 1)) = K OPTIONS) \<and>
        id' (peek l 1) = rune CHR ''(''
     then K INDEX_BEFORE_PAREN
     else if afterCommaParenOrInverted K l \<and> 255 < id' (peek l 1) \<and> id' (peek l 2) = rune CHR ''(''
     then K INDEX_BEFORE_NAME_THEN_PAREN
     else if (id' (peek l (- 1)) = rune CHR '','' \<or>
              (id' (peek l (- 1)) = K BY \<and> id' (peek l (- 2)) = K ORDER)) \<and>
             atSignAfterObjectName (tokens l) (lastPos l) (lastPos l + 1)
     then K INDEX_AFTER_ORDER_BY_BEFORE_AT
     else cur)"
proof -
  define prevID where "prevID = id' (peek l (- 1))"
  define pprevID where "pprevID = id' (peek l (- 2))"
  define nextID where "nextID = id' (peek l 1)"
  define secondID where "secondID = id' (peek l 2)"
  define sc where "sc = atSignAfterObjectName (tokens l) (lastPos l) (lastPos l + 1)"
  have "Lex_INDEX K l cur =
     (if (prevID = rune CHR '','' \<or> prevID = rune CHR ''('') \<and> nextID = rune CHR ''('' \<or>
         (prevID = rune CHR '','' \<or> prevID = K OPTIONS) \<and> nextID = rune CHR ''('' \<or>
         (prevID = K INVERTED \<and> (pprevID = rune CHR '','' \<or> pprevID = rune CHR ''('')) \<and> nextID = rune CHR ''(''
      then K INDEX_BEFORE_PAREN
      else if (prevID = rune CHR '','' \<or> prevID = rune CHR ''('') \<and> (nextID > 255 \<and> secondID = rune CHR ''('') \<or>
              (prevID = K INVERTED \<and> (pprevID = rune CHR '','' \<or> pprevID = rune CHR ''('')) \<and> (nextID > 255 \<and> secondID = rune CHR ''('')
      then K INDEX_BEFORE_NAME_THEN_PAREN
      else if (prevID = rune CHR '','' \<or> (prevID = K BY \<and> pprevID = K ORDER))
           then (if sc then K INDEX_AFTER_ORDER_BY_BEFORE_AT else cur)
           else cur)"
    unfolding Lex_INDEX_def Let_def prevID_def pprevID_def nextID_def secondID_def sc_def
      peek_prev [OF assms(2), symmetric] peek_next [OF assms(1), symmetric]
    by (rule refl)
  also have "\<dots> =
    (if (((prevID = rune CHR '','' \<or> prevID = rune CHR ''('' \<or>
          (prevID = K INVERTED \<and> (pprevID = rune CHR '','' \<or> pprevID = rune CHR ''(''))) \<or> prevID = K OPTIONS) \<and>
        nextID = rune CHR ''('')
     then K INDEX_BEFORE_PAREN
     else if (prevID = rune CHR '','' \<or> prevID = rune CHR ''('' \<or>
          (prevID = K INVERTED \<and> (pprevID = rune CHR '','' \<or> pprevID = rune CHR ''(''))) \<and> 255 < nextID \<and> secondID = rune CHR ''(''
     then K INDEX_BEFORE_NAME_THEN_PAREN
     else if (prevID = rune CHR '','' \<or> (prevID = K BY \<and> pprevID = K ORDER)) \<and> sc
     then K INDEX_AFTER_ORDER_BY_BEFORE_AT
     else cur)"
    by (rule INDEX_if_chain)
  finally show ?thesis
    unfolding afterCommaParenOrInverted_def prevID_def pprevID_def nextID_def secondID_def sc_def .
qed

lemma Lex_switch_INDEX: "wf_codes K \<Longrightarrow> Lex_switch K l (K INDEX) = Lex_INDEX K l (K INDEX)"
  using wf_codes_neq [of K INDEX NOTHING] by (simp add: Lex_switch_def)

lemma Lex_at_INDEX:
  assumes "wf_codes K" "0 \<le> lastPos l" "lastPos l < int (length (tokens l))"
    "id' (peek l 0) = K INDEX"
  shows "Lex K (l\<lparr>lastPos := lastPos l - 1\<rparr>) lv =
    Inr (l, (peek l 0)\<lparr>id' := Lex_INDEX K l (K INDEX)\<rparr>, Lex_INDEX K l (K INDEX))"
  using Lex_at [OF assms(2,3), of K lv] assms(4) Lex_switch_INDEX [OF assms(1), of l] by simp

text \<open>
  C1 (amended). Lex on an INDEX token returns the INDEX-before-paren variant exactly when
  the token before is a comma, an opening parenthesis, OPTIONS, or INVERTED itself after a
  comma or an opening parenthesis, and the next token is an opening parenthesis. It
  returns the INDEX-before-name-then-paren variant exactly when the token before is a
  comma, an opening parenthesis, or INVERTED after one of the two (OPTIONS does not
  count here), the next token has an identity above 255 and the second-next token is an
  opening parenthesis. In every other configuration neither of the two is returned.
\<close>

theorem INDEX_before_paren_rules:
  assumes "wf_codes K" and "0 \<le> lastPos l" and "lastPos l < int (length (tokens l))"
    and "id' (peek l 0) = K INDEX"
  shows "\<exists>r. Lex K (l\<lparr>lastPos := lastPos l - 1\<rparr>) lval = Inr (l, (peek l 0)\<lparr>id' := r\<rparr>, r) \<and>
     (r = K INDEX_BEFORE_PAREN \<longleftrightarrow>
        (afterCommaParenOrInverted K l \<or> id' (peek l (- 1)) = K OPTIONS) \<and>
        id' (peek l 1) = rune CHR ''('') \<and>
     (r = K INDEX_BEFORE_NAME_THEN_PAREN \<longleftrightarrow>
        afterCommaParenOrInverted K l \<and> 255 < id' (peek l 1) \<and> id' (peek l 2) = rune CHR ''('')"
proof -
  let ?r = "Lex_INDEX K l (K INDEX)"
  have d: "K INDEX \<noteq> K INDEX_BEFORE_PAREN" "K INDEX \<noteq> K INDEX_BEFORE_NAME_THEN_PAREN"
    "K INDEX_AFTER_ORDER_BY_BEFORE_AT \<noteq> K INDEX_BEFORE_PAREN"
    "K INDEX_AFTER_ORDER_BY_BEFORE_AT \<noteq> K INDEX_BEFORE_NAME_THEN_PAREN"
    "K INDEX_BEFORE_NAME_THEN_PAREN \<noteq> K INDEX_BEFORE_PAREN"
    "K INDEX_BEFORE_PAREN \<noteq> K INDEX_BEFORE_NAME_THEN_PAREN"
    by (simp_all add: wf_codes_neq [OF assms(1)])
  have "(?r = K INDEX_BEFORE_PAREN \<longleftrightarrow>
        (afterCommaParenOrInverted K l \<or> id' (peek l (- 1)) = K OPTIONS) \<and>
        id' (peek l 1) = rune CHR ''('')"
    unfolding Lex_INDEX_peek [OF assms(2,3)] using d by simp
  moreover have "(?r = K INDEX_BEFORE_NAME_THEN_PAREN \<longleftrightarrow>
        afterCommaParenOrInverted K l \<and> 255 < id' (peek l 1) \<and> id' (peek l 2) = rune CHR ''('')"
    unfolding Lex_INDEX_peek [OF assms(2,3)] using d by auto
  ultimately show ?thesis
    using Lex_at_INDEX [OF assms, of lval] by blast
qed

theorem INDEX_before_paren_rules_witness:
  "wf_codes yycode \<and> 0 \<le> lastPos (ex_create\<lparr>lastPos := 2\<rparr>) \<and>
   lastPos (ex_create\<lparr>lastPos := 2\<rparr>) < int (length (tokens (ex_create\<lparr>lastPos := 2\<rparr>))) \<and>
   id' (peek (ex_create\<lparr>lastPos := 2\<rparr>) 0) = yycode INDEX \<and>
   afterCommaParenOrInverted yycode (ex_create\<lparr>lastPos := 2\<rparr>) \<and>
   255 < id' (peek (ex_create\<lparr>lastPos := 2\<rparr>) 1) \<and>
   id' (peek (ex_create\<lparr>lastPos := 2\<rparr>) 2) = rune CHR ''('' \<and>
   Lex yycode ex_create zeroSym =
     Inr (ex_create\<lparr>lastPos := 2\<rparr>,
          \<lparr>id' = yycode INDEX_BEFORE_NAME_THEN_PAREN, pos = 10, str = ''INDEX''\<rparr>,
          yycode INDEX_BEFORE_NAME_THEN_PAREN)"
  using wf_codes_yycode
    INDEX_before_paren_rules [OF wf_codes_yycode, of "ex_create\<lparr>lastPos := 2\<rparr>" zeroSym]
  by (auto simp: ex_create_def ex_defs)

text \<open>
  C1 as stated fails: in \<^verbatim>\<open>OPTIONS INDEX abc (\<close> the token before INDEX is OPTIONS, the
  next token is an identifier and the second-next an opening parenthesis, and Lex returns
  INDEX unchanged.
\<close>

theorem INDEX_after_OPTIONS_counterexample:
  "id' (peek (ex_scrub\<lparr>lastPos := 1\<rparr>) 0) = yycode INDEX \<and>
   id' (peek (ex_scrub\<lparr>lastPos := 1\<rparr>) (- 1)) = yycode OPTIONS \<and>
   id' (peek (ex_scrub\<lparr>lastPos := 1\<rparr>) 1) \<noteq> rune CHR ''('' \<and>
   255 < id' (peek (ex_scrub\<lparr>lastPos := 1\<rparr>) 1) \<and>
   id' (peek (ex_scrub\<lparr>lastPos := 1\<rparr>) 2) = rune CHR ''('' \<and>
   Lex yycode ex_scrub zeroSym =
     Inr (ex_scrub\<lparr>lastPos := 1\<rparr>, \<lparr>id' = yycode INDEX, pos = 8, str = ''INDEX''\<rparr>, yycode INDEX) \<and>
   yycode INDEX \<noteq> yycode INDEX_BEFORE_NAME_THEN_PAREN"
  by (simp add: ex_scrub_def ex_defs Lex_def Let_def Lex_switch_def Lex_INDEX_def)

text \<open>
  C2 (amended). Lex on an INDEX token that follows a comma, or BY after ORDER, returns the
  INDEX-after-ORDER-BY-before-at variant exactly when one of the second to sixth tokens
  after it is an at-sign and every token between INDEX and that at-sign is of
  identifier/keyword class (identity not below 255) or a dot. Otherwise the order-by rule
  does not apply: the token keeps the identity INDEX, unless it follows a comma and one of
  the two parenthesis rules rewrites it. Where none of the five tokens after INDEX has the
  identity 255 itself, the class is that of the identities above 255.
\<close>

theorem INDEX_after_order_by_rule:
  assumes "wf_codes K" and "0 \<le> lastPos l" and "lastPos l < int (length (tokens l))"
    and "id' (peek l 0) = K INDEX"
    and "id' (peek l (- 1)) = rune CHR '','' \<or>
         (id' (peek l (- 1)) = K BY \<and> id' (peek l (- 2)) = K ORDER)"
  shows "\<exists>r. Lex K (l\<lparr>lastPos := lastPos l - 1\<rparr>) lval = Inr (l, (peek l 0)\<lparr>id' := r\<rparr>, r) \<and>
     (r = K INDEX_AFTER_ORDER_BY_BEFORE_AT \<longleftrightarrow>
        (\<exists>k\<in>{2..6}. id' (peek l k) = rune CHR ''@'' \<and>
           (\<forall>m\<in>{1..<k}. 255 \<le> id' (peek l m) \<or> id' (peek l m) = rune CHR ''.''))) \<and>
     (r \<noteq> K INDEX_AFTER_ORDER_BY_BEFORE_AT \<longrightarrow>
        r = (if id' (peek l (- 1)) = rune CHR '','' \<and> id' (peek l 1) = rune CHR ''(''
             then K INDEX_BEFORE_PAREN
             else if id' (peek l (- 1)) = rune CHR '','' \<and> 255 < id' (peek l 1) \<and>
                     id' (peek l 2) = rune CHR ''(''
             then K INDEX_BEFORE_NAME_THEN_PAREN
             else K INDEX)) \<and>
     ((\<forall>m\<in>{1..5}. id' (peek l m) \<noteq> 255) \<longrightarrow>
        (r = K INDEX_AFTER_ORDER_BY_BEFORE_AT \<longleftrightarrow>
           (\<exists>k\<in>{2..6}. id' (peek l k) = rune CHR ''@'' \<and>
              (\<forall>m\<in>{1..<k}. 255 < id' (peek l m) \<or> id' (peek l m) = rune CHR ''.''))))"
proof -
  let ?r = "Lex_INDEX K l (K INDEX)"
  let ?S = "\<exists>k\<in>{2..6}. id' (peek l k) = rune CHR ''@'' \<and>
           (\<forall>m\<in>{1..<k}. 255 \<le> id' (peek l m) \<or> id' (peek l m) = rune CHR ''.'')"
  let ?S' = "\<exists>k\<in>{2..6}. id' (peek l k) = rune CHR ''@'' \<and>
           (\<forall>m\<in>{1..<k}. 255 < id' (peek l m) \<or> id' (peek l m) = rune CHR ''.'')"
  have d: "K INDEX \<noteq> K INDEX_AFTER_ORDER_BY_BEFORE_AT"
    "K INDEX_BEFORE_PAREN \<noteq> K INDEX_AFTER_ORDER_BY_BEFORE_AT"
    "K INDEX_BEFORE_NAME_THEN_PAREN \<noteq> K INDEX_AFTER_ORDER_BY_BEFORE_AT"
    by (simp_all add: wf_codes_neq [OF assms(1)])
  have p: "id' (peek l (- 1)) \<noteq> rune CHR ''(''" "id' (peek l (- 1)) \<noteq> K OPTIONS"
    "id' (peek l (- 1)) \<noteq> K INVERTED"
    using assms(5) wf_codes_punct [OF assms(1)] wf_codes_neq [OF assms(1)] by auto
  have a: "afterCommaParenOrInverted K l \<longleftrightarrow> id' (peek l (- 1)) = rune CHR '',''"
    using p by (auto simp: afterCommaParenOrInverted_def)
  define S where "S \<longleftrightarrow> ?S"
  have sc: "atSignAfterObjectName (tokens l) (lastPos l) (lastPos l + 1) \<longleftrightarrow> S"
    unfolding S_def by (rule scan_peek [OF assms(2)])
  have r: "?r = (if id' (peek l (- 1)) = rune CHR '','' \<and> id' (peek l 1) = rune CHR ''(''
             then K INDEX_BEFORE_PAREN
             else if id' (peek l (- 1)) = rune CHR '','' \<and> 255 < id' (peek l 1) \<and>
                     id' (peek l 2) = rune CHR ''(''
             then K INDEX_BEFORE_NAME_THEN_PAREN
             else if S then K INDEX_AFTER_ORDER_BY_BEFORE_AT else K INDEX)"
    unfolding Lex_INDEX_peek [OF assms(2,3)] a sc using p(2) assms(5) by simp
  have n1: "\<not> ?S" if "id' (peek l 1) = rune CHR ''(''"
  proof
    assume ?S
    then obtain k where k: "k \<in> {2..6}"
      "\<forall>m\<in>{1..<k}. 255 \<le> id' (peek l m) \<or> id' (peek l m) = rune CHR ''.''" by blast
    then have "1 \<in> {1..<k}" by simp
    with k have "255 \<le> id' (peek l 1) \<or> id' (peek l 1) = rune CHR ''.''" by blast
    with that show False by simp
  qed
  have n2: "\<not> ?S" if "255 < id' (peek l 1)" "id' (peek l 2) = rune CHR ''(''"
  proof
    assume ?S
    then obtain k where k: "k \<in> {2..6}" "id' (peek l k) = rune CHR ''@''"
      "\<forall>m\<in>{1..<k}. 255 \<le> id' (peek l m) \<or> id' (peek l m) = rune CHR ''.''" by blast
    have "k \<noteq> 2" using k(2) that(2) by auto
    with k have "2 \<in> {1..<k}" by simp
    with k have "255 \<le> id' (peek l 2) \<or> id' (peek l 2) = rune CHR ''.''" by blast
    with that show False by simp
  qed
  have n1': "\<not> S" if "id' (peek l 1) = rune CHR ''(''"
    using n1 that unfolding S_def by blast
  have n2': "\<not> S" if "255 < id' (peek l 1)" "id' (peek l 2) = rune CHR ''(''"
    using n2 that unfolding S_def by blast
  have "?r = K INDEX_AFTER_ORDER_BY_BEFORE_AT \<longleftrightarrow> S"
    unfolding r using d n1' n2' by auto
  then have rS: "?r = K INDEX_AFTER_ORDER_BY_BEFORE_AT \<longleftrightarrow> ?S"
    unfolding S_def .
  moreover have "?r \<noteq> K INDEX_AFTER_ORDER_BY_BEFORE_AT \<longrightarrow>
        ?r = (if id' (peek l (- 1)) = rune CHR '','' \<and> id' (peek l 1) = rune CHR ''(''
             then K INDEX_BEFORE_PAREN
             else if id' (peek l (- 1)) = rune CHR '','' \<and> 255 < id' (peek l 1) \<and>
                     id' (peek l 2) = rune CHR ''(''
             then K INDEX_BEFORE_NAME_THEN_PAREN
             else K INDEX)"
    unfolding r by simp
  moreover have "(\<forall>m\<in>{1..5}. id' (peek l m) \<noteq> 255) \<longrightarrow>
        (?r = K INDEX_AFTER_ORDER_BY_BEFORE_AT \<longleftrightarrow> ?S')"
  proof
    assume nn: "\<forall>m\<in>{1..5}. id' (peek l m) \<noteq> 255"
    have c: "(255 \<le> id' (peek l m) \<or> id' (peek l m) = rune CHR ''.'') =
             (255 < id' (peek l m) \<or> id' (peek l m) = rune CHR ''.'')"
      if "k \<in> {2..6}" "m \<in> {1..<k}" for k m :: int
    proof -
      from that have "m \<in> {1..5}" by auto
      with nn have "id' (peek l m) \<noteq> 255" by blast
      then show ?thesis by auto
    qed
    have "?S \<longleftrightarrow> ?S'"
      by (intro bex_cong refl conj_cong ball_cong) (rule c, assumption+)
    with rS show "?r = K INDEX_AFTER_ORDER_BY_BEFORE_AT \<longleftrightarrow> ?S'" by simp
  qed
  ultimately show ?thesis
    using Lex_at_INDEX [OF assms(1-4), of lval] by blast
qed

theorem INDEX_after_order_by_rule_witness:
  "wf_codes yycode \<and> 0 \<le> lastPos (ex_order_by\<lparr>lastPos := 2\<rparr>) \<and>
   lastPos (ex_order_by\<lparr>lastPos := 2\<rparr>) < int (length (tokens (ex_order_by\<lparr>lastPos := 2\<rparr>))) \<and>
   id' (peek (ex_order_by\<lparr>lastPos := 2\<rparr>) 0) = yycode INDEX \<and>
   id' (peek (ex_order_by\<lparr>lastPos := 2\<rparr>) (- 1)) = yycode BY \<and>
   id' (peek (ex_order_by\<lparr>lastPos := 2\<rparr>) (- 2)) = yycode ORDER \<and>
   id' (peek (ex_order_by\<lparr>lastPos := 2\<rparr>) 4) = rune CHR ''@'' \<and>
   Lex yycode ex_order_by zeroSym =
     Inr (ex_order_by\<lparr>lastPos := 2\<rparr>,
          \<lparr>id' = yycode INDEX_AFTER_ORDER_BY_BEFORE_AT, pos = 9, str = ''index''\<rparr>,
          yycode INDEX_AFTER_ORDER_BY_BEFORE_AT) \<and>
   Lex yycode ex_order_by_plain zeroSym =
     Inr (ex_order_by_plain\<lparr>lastPos := 2\<rparr>,
          \<lparr>id' = yycode INDEX, pos = 9, str = ''index''\<rparr>, yycode INDEX)"
proof -
  let ?l = "ex_order_by\<lparr>lastPos := 2\<rparr>"
  have h: "0 \<le> lastPos ?l" "lastPos ?l < int (length (tokens ?l))"
    "id' (peek ?l 0) = yycode INDEX"
    "id' (peek ?l (- 1)) = rune CHR '','' \<or>
         (id' (peek ?l (- 1)) = yycode BY \<and> id' (peek ?l (- 2)) = yycode ORDER)"
    by (simp_all add: ex_order_by_def ex_defs)
  have s: "\<exists>k\<in>{2..6}. id' (peek ?l k) = rune CHR ''@'' \<and>
           (\<forall>m\<in>{1..<k}. 255 \<le> id' (peek ?l m) \<or> id' (peek ?l m) = rune CHR ''.'')"
  proof (intro bexI [of _ 4] conjI ballI)
    show "id' (peek ?l 4) = rune CHR ''@''" by (simp add: ex_order_by_def ex_defs)
    show "(4::int) \<in> {2..6}" by simp
    fix m :: int assume "m \<in> {1..<4}"
    then have "m = 1 \<or> m = 2 \<or> m = 3" by auto
    then show "255 \<le> id' (peek ?l m) \<or> id' (peek ?l m) = rune CHR ''.''"
      by (auto simp: ex_order_by_def ex_defs)
  qed
  have p: "Lex yycode ex_order_by_plain zeroSym =
     Inr (ex_order_by_plain\<lparr>lastPos := 2\<rparr>,
          \<lparr>id' = yycode INDEX, pos = 9, str = ''index''\<rparr>, yycode INDEX)"
    by (simp add: ex_order_by_plain_def ex_defs Lex_def Let_def Lex_switch_def Lex_INDEX_def
          scan_unfold)
  have e: "?l\<lparr>lastPos := lastPos ?l - 1\<rparr> = ex_order_by"
    by (simp add: ex_order_by_def ex_defs)
  have t: "peek ?l 0 = \<lparr>id' = yycode INDEX, pos = 9, str = ''index''\<rparr>"
    by (simp add: ex_order_by_def ex_defs)
  show ?thesis
    using wf_codes_yycode h s p
      INDEX_after_order_by_rule [OF wf_codes_yycode h, of zeroSym]
    unfolding e t
    by (auto simp: ex_order_by_def ex_defs)
qed

text \<open>
  C2 as stated fails: in \<^verbatim>\<open>, INDEX (x)\<close> the token before INDEX is a comma and the token
  after it, an opening parenthesis, is neither of identifier/keyword class nor a dot nor an
  at-sign, yet the identity does not stay INDEX: Lex returns the INDEX-before-paren variant.
\<close>

theorem INDEX_after_comma_counterexample:
  "id' (peek (ex_coldef\<lparr>lastPos := 1\<rparr>) 0) = yycode INDEX \<and>
   id' (peek (ex_coldef\<lparr>lastPos := 1\<rparr>) (- 1)) = rune CHR '','' \<and>
   id' (peek (ex_coldef\<lparr>lastPos := 1\<rparr>) 1) = rune CHR ''('' \<and>
   \<not> 255 \<le> id' (peek (ex_coldef\<lparr>lastPos := 1\<rparr>) 1) \<and>
   id' (peek (ex_coldef\<lparr>lastPos := 1\<rparr>) 1) \<noteq> rune CHR ''.'' \<and>
   id' (peek (ex_coldef\<lparr>lastPos := 1\<rparr>) 1) \<noteq> rune CHR ''@'' \<and>
   Lex yycode ex_coldef zeroSym =
     Inr (ex_coldef\<lparr>lastPos := 1\<rparr>,
          \<lparr>id' = yycode INDEX_BEFORE_PAREN, pos = 2, str = ''INDEX''\<rparr>,
          yycode INDEX_BEFORE_PAREN) \<and>
   yycode INDEX_BEFORE_PAREN \<noteq> yycode INDEX"
  by (simp add: ex_coldef_def ex_defs Lex_def Let_def Lex_switch_def Lex_INDEX_def)

subsection \<open>The SET TRACING rule\<close>

lemma Lex_switch_SET: "wf_codes K \<Longrightarrow> Lex_switch K l (K SET) = Lex_lookahead K l (K SET)"
  using wf_codes_neq [of K SET NOTHING] wf_codes_neq [of K SET INDEX] by (simp add: Lex_switch_def)

lemma peek_str_dot:
  assumes "0 \<le> lastPos l" "0 \<le> k"
  shows "str (if lastPos l + k < int (length (tokens l)) then tokens l ! nat (lastPos l + k) else zeroSym) \<noteq> ''.''
     \<longleftrightarrow> str (peek l k) \<noteq> ''.''"
  using assms by (simp add: peek_def zeroSym_def)

lemma peek_id_tok:
  assumes "0 \<le> lastPos l" "0 \<le> k"
  shows "id' (if lastPos l + k < int (length (tokens l)) then tokens l ! nat (lastPos l + k) else zeroSym)
     = id' (peek l k)"
  using assms by (simp add: peek_def zeroSym_def)

lemma Lex_lookahead_SET:
  assumes "wf_codes K" "0 \<le> lastPos l"
  shows "Lex_lookahead K l (K SET) =
    (if (id' (peek l 1) = K TRACING \<and> str (peek l 2) \<noteq> ''.'') \<or>
        (id' (peek l 1) = K SESSION \<and> id' (peek l 2) = K TRACING \<and> str (peek l 3) \<noteq> ''.'')
     then K SET_TRACING else K SET)"
proof -
  have d: "K SET \<noteq> K AS" "K SET \<noteq> K NOT" "K SET \<noteq> K GENERATED" "K SET \<noteq> K WITH"
    "K SET \<noteq> K NULLS" "K SET \<noteq> K RESET" "K SET \<noteq> K ROLE" "K SET \<noteq> K USER" "K SET \<noteq> K ON"
    "K SET \<noteq> K TENANT" "K SET \<noteq> K CLUSTER" "K TRACING \<noteq> K SESSION"
    by (simp_all add: wf_codes_neq [OF assms(1)])
  show ?thesis
    unfolding Lex_lookahead_def Let_def
      peek_str_dot [OF assms(2), of 2, simplified] peek_str_dot [OF assms(2), of 3, simplified]
      peek_id_tok [OF assms(2), of 1, simplified] peek_id_tok [OF assms(2), of 2, simplified]
    using d by (simp only: if_False if_True refl) auto
qed

text \<open>
  C3. Lex on a SET token returns the SET TRACING variant exactly when the next token is
  TRACING and the text of the token after it is not a dot, or the next token is SESSION,
  the second-next is TRACING and the text of the third-next is not a dot; otherwise it
  returns SET. The witness runs \<^verbatim>\<open>SET TRACING = 'on'\<close> (rewritten) and
  \<^verbatim>\<open>SET tracing.custom = 1\<close> (unchanged).
\<close>

theorem SET_TRACING_rule:
  assumes "wf_codes K" and "0 \<le> lastPos l" and "lastPos l < int (length (tokens l))"
    and "id' (peek l 0) = K SET"
  shows "\<exists>r. Lex K (l\<lparr>lastPos := lastPos l - 1\<rparr>) lval = Inr (l, (peek l 0)\<lparr>id' := r\<rparr>, r) \<and>
     (r = K SET_TRACING \<or> r = K SET) \<and> K SET_TRACING \<noteq> K SET \<and>
     (r = K SET_TRACING \<longleftrightarrow>
        (id' (peek l 1) = K TRACING \<and> str (peek l 2) \<noteq> ''.'') \<or>
        (id' (peek l 1) = K SESSION \<and> id' (peek l 2) = K TRACING \<and> str (peek l 3) \<noteq> ''.''))"
proof -
  have d: "K SET_TRACING \<noteq> K SET" by (simp add: wf_codes_neq [OF assms(1)])
  have "Lex K (l\<lparr>lastPos := lastPos l - 1\<rparr>) lval =
     Inr (l, (peek l 0)\<lparr>id' := Lex_lookahead K l (K SET)\<rparr>, Lex_lookahead K l (K SET))"
    using Lex_at [OF assms(2,3), of K lval] assms(4) Lex_switch_SET [OF assms(1), of l] by simp
  then show ?thesis
    using d unfolding Lex_lookahead_SET [OF assms(1,2)] by auto
qed

theorem SET_TRACING_rule_witness:
  "wf_codes yycode \<and> 0 \<le> lastPos (ex_set_tracing\<lparr>lastPos := 0\<rparr>) \<and>
   lastPos (ex_set_tracing\<lparr>lastPos := 0\<rparr>) < int (length (tokens (ex_set_tracing\<lparr>lastPos := 0\<rparr>))) \<and>
   id' (peek (ex_set_tracing\<lparr>lastPos := 0\<rparr>) 0) = yycode SET \<and>
   id' (peek (ex_set_tracing\<lparr>lastPos := 0\<rparr>) 1) = yycode TRACING \<and>
   str (peek (ex_set_tracing\<lparr>lastPos := 0\<rparr>) 2) = ''='' \<and>
   Lex yycode ex_set_tracing zeroSym =
     Inr (ex_set_tracing\<lparr>lastPos := 0\<rparr>,
          \<lparr>id' = yycode SET_TRACING, pos = 0, str = ''SET''\<rparr>, yycode SET_TRACING) \<and>
   id' (peek (ex_set_dotted\<lparr>lastPos := 0\<rparr>) 1) = yycode TRACING \<and>
   str (peek (ex_set_dotted\<lparr>lastPos := 0\<rparr>) 2) = ''.'' \<and>
   Lex yycode ex_set_dotted zeroSym =
     Inr (ex_set_dotted\<lparr>lastPos := 0\<rparr>,
          \<lparr>id' = yycode SET, pos = 0, str = ''SET''\<rparr>, yycode SET)"
proof -
  let ?l = "ex_set_tracing\<lparr>lastPos := 0\<rparr>"
  have h: "0 \<le> lastPos ?l" "lastPos ?l < int (length (tokens ?l))" "id' (peek ?l 0) = yycode SET"
    by (simp_all add: ex_set_tracing_def ex_defs)
  have e: "?l\<lparr>lastPos := lastPos ?l - 1\<rparr> = ex_set_tracing"
    by (simp add: ex_set_tracing_def ex_defs)
  have t: "peek ?l 0 = \<lparr>id' = yycode SET, pos = 0, str = ''SET''\<rparr>"
    by (simp add: ex_set_tracing_def ex_defs)
  have n: "id' (peek ?l 1) = yycode TRACING" "str (peek ?l 2) = ''=''"
    by (simp_all add: ex_set_tracing_def ex_defs)
  have dl: "0 \<le> lastPos (ex_set_dotted\<lparr>lastPos := 0\<rparr>)"
    "lastPos (ex_set_dotted\<lparr>lastPos := 0\<rparr>) < int (length (tokens (ex_set_dotted\<lparr>lastPos := 0\<rparr>)))"
    "id' (peek (ex_set_dotted\<lparr>lastPos := 0\<rparr>) 0) = yycode SET"
    "id' (peek (ex_set_dotted\<lparr>lastPos := 0\<rparr>) 1) = yycode TRACING"
    "str (peek (ex_set_dotted\<lparr>lastPos := 0\<rparr>) 2) = ''.''"
    "id' (peek (ex_set_dotted\<lparr>lastPos := 0\<rparr>) 1) \<noteq> yycode SESSION"
    "(ex_set_dotted\<lparr>lastPos := 0\<rparr>)\<lparr>lastPos := lastPos (ex_set_dotted\<lparr>lastPos := 0\<rparr>) - 1\<rparr> = ex_set_dotted"
    "peek (ex_set_dotted\<lparr>lastPos := 0\<rparr>) 0 = \<lparr>id' = yycode SET, pos = 0, str = ''SET''\<rparr>"
    by (simp_all add: ex_set_dotted_def ex_defs)
  have d: "Lex yycode ex_set_dotted zeroSym =
     Inr (ex_set_dotted\<lparr>lastPos := 0\<rparr>,
          \<lparr>id' = yycode SET, pos = 0, str = ''SET''\<rparr>, yycode SET)"
    using Lex_at [OF dl(1,2), of yycode zeroSym] Lex_switch_SET [OF wf_codes_yycode, of "ex_set_dotted\<lparr>lastPos := 0\<rparr>"]
       Lex_lookahead_SET [OF wf_codes_yycode dl(1)] dl(3-8)
    by simp
  show ?thesis
    using wf_codes_yycode h n d dl(4,5)
      SET_TRACING_rule [OF wf_codes_yycode h, of zeroSym]
    unfolding e t
    by auto
qed

subsection \<open>Identity 0 and the rules\<close>

lemma Lex_switch_AS: "wf_codes K \<Longrightarrow> Lex_switch K l (K AS) = Lex_lookahead K l (K AS)"
  using wf_codes_neq [of K AS NOTHING] wf_codes_neq [of K AS INDEX] by (simp add: Lex_switch_def)

lemma Lex_switch_ON: "wf_codes K \<Longrightarrow> Lex_switch K l (K ON) = Lex_lookahead K l (K ON)"
  using wf_codes_neq [of K ON NOTHING] wf_codes_neq [of K ON INDEX] by (simp add: Lex_switch_def)

lemma Lex_lookahead_AS:
  assumes "wf_codes K" "0 \<le> lastPos l"
  shows "Lex_lookahead K l (K AS) =
    (if id' (peek l 1) = K OF \<and> id' (peek l 2) = K SYSTEM then K AS_LA else K AS)"
  unfolding Lex_lookahead_def Let_def
    peek_id_tok [OF assms(2), of 1, simplified] peek_id_tok [OF assms(2), of 2, simplified]
  by (simp only: if_False if_True refl) auto

lemma Lex_lookahead_ON:
  assumes "wf_codes K" "0 \<le> lastPos l"
  shows "Lex_lookahead K l (K ON) =
    (if id' (peek l 1) = K DELETE \<or>
        (id' (peek l 1) = K UPDATE \<and> id' (peek l 2) \<in> {K NO, K RESTRICT, K CASCADE, K SET})
     then K ON_LA else K ON)"
proof -
  have d: "K ON \<noteq> K AS" "K ON \<noteq> K NOT" "K ON \<noteq> K GENERATED" "K ON \<noteq> K WITH"
    "K ON \<noteq> K NULLS" "K ON \<noteq> K RESET" "K ON \<noteq> K ROLE" "K ON \<noteq> K USER"
    "K DELETE \<noteq> K UPDATE"
    by (simp_all add: wf_codes_neq [OF assms(1)])
  show ?thesis
    unfolding Lex_lookahead_def Let_def
      peek_id_tok [OF assms(2), of 1, simplified] peek_id_tok [OF assms(2), of 2, simplified]
    using d by (simp only: if_False if_True refl) auto
qed

lemma scan_stops_at_zero:
  assumes "0 \<le> lastPos l" "k \<in> {1..6}" "id' (peek l k) = 0"
    "\<forall>j\<in>{2..<k}. id' (peek l j) \<noteq> rune CHR ''@''"
  shows "\<not> atSignAfterObjectName (tokens l) (lastPos l) (lastPos l + 1)"
proof
  assume "atSignAfterObjectName (tokens l) (lastPos l) (lastPos l + 1)"
  then obtain k' where k': "k' \<in> {2..6}" "id' (peek l k') = rune CHR ''@''"
     "\<forall>m\<in>{1..<k'}. 255 \<le> id' (peek l m) \<or> id' (peek l m) = rune CHR ''.''"
    using scan_peek [OF assms(1)] by blast
  consider (lt) "k' < k" | (eq) "k' = k" | (gt) "k < k'" by linarith
  then show False
  proof cases
    case lt
    with k'(1) have "k' \<in> {2..<k}" by simp
    with assms(4) k'(2) show False by blast
  next
    case eq
    with k'(2) assms(3) show False by simp
  next
    case gt
    with assms(2) have "k \<in> {1..<k'}" by simp
    with k'(3) have "255 \<le> id' (peek l k) \<or> id' (peek l k) = rune CHR ''.''" by blast
    with assms(3) show False by simp
  qed
qed

lemma Lex_INDEX_pprev_zero:
  assumes "wf_codes K" "0 \<le> lastPos l" "lastPos l < int (length (tokens l))"
    "id' (peek l (- 2)) = 0"
    "id' (peek l (- 1)) \<notin> {rune CHR '','', rune CHR ''('', K OPTIONS}"
  shows "Lex_INDEX K l cur = cur"
  unfolding Lex_INDEX_peek [OF assms(2,3)] afterCommaParenOrInverted_def
  using assms(4,5) wf_codes_punct(6) [OF assms(1), of ORDER] by simp

lemma Lex_INDEX_second_zero:
  assumes "wf_codes K" "0 \<le> lastPos l" "lastPos l < int (length (tokens l))"
    "id' (peek l 2) = 0"
  shows "Lex_INDEX K l cur =
    (if (afterCommaParenOrInverted K l \<or> id' (peek l (- 1)) = K OPTIONS) \<and>
        id' (peek l 1) = rune CHR ''(''
     then K INDEX_BEFORE_PAREN else cur)"
proof -
  have "\<not> atSignAfterObjectName (tokens l) (lastPos l) (lastPos l + 1)"
    using scan_stops_at_zero [OF assms(2), of 2] assms(4) by simp
  then show ?thesis
    unfolding Lex_INDEX_peek [OF assms(2,3)] using assms(4) by simp
qed

lemma Lex_INDEX_prev_zero:
  assumes "wf_codes K" "0 \<le> lastPos l" "lastPos l < int (length (tokens l))"
    "id' (peek l (- 1)) = 0"
  shows "Lex_INDEX K l cur = cur"
  unfolding Lex_INDEX_peek [OF assms(2,3)] afterCommaParenOrInverted_def
  using assms(4) wf_codes_punct(6) [OF assms(1)] by simp

lemma ex_huge_length: "int (length (in' ex_huge)) = 2147483648"
  unfolding ex_huge_def mk_lexer_def by (simp only: lexer.simps length_replicate) simp

text \<open>
  C6 (amended). When the position moves past the end of the token array, Lex writes and
  returns the end-of-input token: identity 0, text EOF, and as offset the length of the
  source text converted to \<^verbatim>\<open>int32\<close>, which is the length itself for a source text
  shorter than \<open>2^31\<close> bytes; the returned value is 0, and lastToken gives the same token at
  that position. The identity 0 satisfies no condition of the rules, whether it is the
  identity of a token of the array or stands for a token beyond either end of it. In range,
  Lex returns the token of the array with an identity \<open>r\<close> such that: a token of identity 0
  stays as it is (no trigger); a NOTHING or an INDEX after identity 0 stays as it is; any
  token but NOTHING stays as it is before identity 0; an INDEX stays as it is when the
  second token before it has identity 0 and the token before it is none of comma, opening
  parenthesis and OPTIONS; an INDEX whose second-next token has identity 0 is rewritten by
  the before-paren rule or not at all; identity 0 among the six tokens after an INDEX, with
  no at-sign from the second of them up to it, stops the scan for the at-sign; and with
  identity 0 as second-next token, AS stays as it is, ON is rewritten only before DELETE,
  and SET stays as it is unless the next token is TRACING (whose rule reads the text, not
  the identity, of the second-next token).
\<close>

theorem end_of_input_token:
  assumes "wf_codes K"
  shows "(int (length (tokens l)) \<le> lastPos l + 1 \<longrightarrow>
            Lex K l lval =
              Inr (l\<lparr>lastPos := lastPos l + 1\<rparr>,
                   \<lparr>id' = 0, pos = int32 (int (length (in' l))), str = ''EOF''\<rparr>, 0) \<and>
            lastToken (l\<lparr>lastPos := lastPos l + 1\<rparr>) =
              \<lparr>id' = 0, pos = int32 (int (length (in' l))), str = ''EOF''\<rparr> \<and>
            (length (in' l) < 2 ^ 31 \<longrightarrow> int32 (int (length (in' l))) = int (length (in' l)))) \<and>
         (0 \<le> lastPos m \<and> lastPos m < int (length (tokens m)) \<longrightarrow>
            (\<exists>r. Lex K (m\<lparr>lastPos := lastPos m - 1\<rparr>) lval = Inr (m, (peek m 0)\<lparr>id' := r\<rparr>, r) \<and>
               (id' (peek m 0) = 0 \<longrightarrow> r = 0) \<and>
               (id' (peek m (- 1)) = 0 \<and> id' (peek m 0) \<in> {K NOTHING, K INDEX} \<longrightarrow>
                  r = id' (peek m 0)) \<and>
               (id' (peek m 1) = 0 \<and> id' (peek m 0) \<noteq> K NOTHING \<longrightarrow> r = id' (peek m 0)) \<and>
               (id' (peek m (- 2)) = 0 \<and> id' (peek m 0) = K INDEX \<and>
                id' (peek m (- 1)) \<notin> {rune CHR '','', rune CHR ''('', K OPTIONS} \<longrightarrow> r = K INDEX) \<and>
               (id' (peek m 2) = 0 \<and> id' (peek m 0) = K INDEX \<longrightarrow>
                  r = (if (afterCommaParenOrInverted K m \<or> id' (peek m (- 1)) = K OPTIONS) \<and>
                          id' (peek m 1) = rune CHR ''(''
                       then K INDEX_BEFORE_PAREN else K INDEX)) \<and>
               (id' (peek m 0) = K INDEX \<and>
                (\<exists>k\<in>{1..6}. id' (peek m k) = 0 \<and> (\<forall>j\<in>{2..<k}. id' (peek m j) \<noteq> rune CHR ''@'')) \<longrightarrow>
                  r \<noteq> K INDEX_AFTER_ORDER_BY_BEFORE_AT) \<and>
               (id' (peek m 2) = 0 \<and> id' (peek m 0) = K AS \<longrightarrow> r = K AS) \<and>
               (id' (peek m 2) = 0 \<and> id' (peek m 0) = K ON \<longrightarrow>
                  r = (if id' (peek m 1) = K DELETE then K ON_LA else K ON)) \<and>
               (id' (peek m 2) = 0 \<and> id' (peek m 0) = K SET \<and> id' (peek m 1) \<noteq> K TRACING \<longrightarrow>
                  r = K SET)))"
proof (intro conjI impI)
  assume "int (length (tokens l)) \<le> lastPos l + 1"
  then show "Lex K l lval =
              Inr (l\<lparr>lastPos := lastPos l + 1\<rparr>,
                   \<lparr>id' = 0, pos = int32 (int (length (in' l))), str = ''EOF''\<rparr>, 0)"
    by (rule Lex_past_end)
next
  assume "int (length (tokens l)) \<le> lastPos l + 1"
  then show "lastToken (l\<lparr>lastPos := lastPos l + 1\<rparr>) =
              \<lparr>id' = 0, pos = int32 (int (length (in' l))), str = ''EOF''\<rparr>"
    by (simp add: lastToken_def)
next
  assume "length (in' l) < 2 ^ 31"
  then have "int (length (in' l)) < 2 ^ 31"
    by (metis of_nat_less_iff of_nat_numeral of_nat_power)
  then show "int32 (int (length (in' l))) = int (length (in' l))"
    by (simp add: int32_small)
next
  assume a: "0 \<le> lastPos m \<and> lastPos m < int (length (tokens m))"
  then have r: "0 \<le> lastPos m" "lastPos m < int (length (tokens m))" by simp_all
  define c where "c = id' (peek m 0)"
  define r where "r = Lex_switch K m c"
  have L: "Lex K (m\<lparr>lastPos := lastPos m - 1\<rparr>) lval = Inr (m, (peek m 0)\<lparr>id' := r\<rparr>, r)"
    unfolding r_def c_def by (rule Lex_at [OF r])
  have z: "c = 0 \<longrightarrow> r = 0"
    unfolding r_def by (simp add: Lex_switch_zero [OF assms])
  have p: "id' (peek m (- 1)) = 0 \<and> c \<in> {K NOTHING, K INDEX} \<longrightarrow> r = c"
  proof
    assume h: "id' (peek m (- 1)) = 0 \<and> c \<in> {K NOTHING, K INDEX}"
    then consider (n) "c = K NOTHING" | (i) "c = K INDEX" by blast
    then show "r = c"
    proof cases
      case n
      then show ?thesis
        unfolding r_def
        using h Lex_NOTHING_prev_zero [OF assms r(2), of "K NOTHING"] by (simp add: Lex_switch_def)
    next
      case i
      then show ?thesis
        unfolding r_def
        using h Lex_INDEX_prev_zero [OF assms r, of "K INDEX"] Lex_switch_INDEX [OF assms, of m]
        by simp
    qed
  qed
  have n: "id' (peek m 1) = 0 \<and> c \<noteq> K NOTHING \<longrightarrow> r = c"
    unfolding r_def by (simp add: Lex_switch_next_zero [OF assms r(1)])
  have pp: "id' (peek m (- 2)) = 0 \<and> c = K INDEX \<and>
            id' (peek m (- 1)) \<notin> {rune CHR '','', rune CHR ''('', K OPTIONS} \<longrightarrow> r = K INDEX"
  proof
    assume h: "id' (peek m (- 2)) = 0 \<and> c = K INDEX \<and>
            id' (peek m (- 1)) \<notin> {rune CHR '','', rune CHR ''('', K OPTIONS}"
    then have "Lex_INDEX K m (K INDEX) = K INDEX"
      using Lex_INDEX_pprev_zero [OF assms r, of "K INDEX"] by blast
    with h show "r = K INDEX"
      unfolding r_def using Lex_switch_INDEX [OF assms, of m] by simp
  qed
  have s: "id' (peek m 2) = 0 \<and> c = K INDEX \<longrightarrow>
                  r = (if (afterCommaParenOrInverted K m \<or> id' (peek m (- 1)) = K OPTIONS) \<and>
                          id' (peek m 1) = rune CHR ''(''
                       then K INDEX_BEFORE_PAREN else K INDEX)"
  proof
    assume h: "id' (peek m 2) = 0 \<and> c = K INDEX"
    then have "r = Lex_INDEX K m (K INDEX)"
      unfolding r_def using Lex_switch_INDEX [OF assms, of m] by simp
    also have "\<dots> = (if (afterCommaParenOrInverted K m \<or> id' (peek m (- 1)) = K OPTIONS) \<and>
                          id' (peek m 1) = rune CHR ''(''
                       then K INDEX_BEFORE_PAREN else K INDEX)"
      using h by (intro Lex_INDEX_second_zero [OF assms r]) simp
    finally show "r = (if (afterCommaParenOrInverted K m \<or> id' (peek m (- 1)) = K OPTIONS) \<and>
                          id' (peek m 1) = rune CHR ''(''
                       then K INDEX_BEFORE_PAREN else K INDEX)" .
  qed
  have sc: "c = K INDEX \<and>
                (\<exists>k\<in>{1..6}. id' (peek m k) = 0 \<and> (\<forall>j\<in>{2..<k}. id' (peek m j) \<noteq> rune CHR ''@'')) \<longrightarrow>
                  r \<noteq> K INDEX_AFTER_ORDER_BY_BEFORE_AT"
  proof
    assume h: "c = K INDEX \<and>
                (\<exists>k\<in>{1..6}. id' (peek m k) = 0 \<and> (\<forall>j\<in>{2..<k}. id' (peek m j) \<noteq> rune CHR ''@''))"
    then obtain k where k: "k \<in> {1..6}" "id' (peek m k) = 0"
        "\<forall>j\<in>{2..<k}. id' (peek m j) \<noteq> rune CHR ''@''" by blast
    have ns: "\<not> atSignAfterObjectName (tokens m) (lastPos m) (lastPos m + 1)"
      by (rule scan_stops_at_zero [OF r(1) k])
    have d: "K INDEX_BEFORE_PAREN \<noteq> K INDEX_AFTER_ORDER_BY_BEFORE_AT"
       "K INDEX_BEFORE_NAME_THEN_PAREN \<noteq> K INDEX_AFTER_ORDER_BY_BEFORE_AT"
       "K INDEX \<noteq> K INDEX_AFTER_ORDER_BY_BEFORE_AT"
      by (simp_all add: wf_codes_neq [OF assms])
    have "r = Lex_INDEX K m (K INDEX)"
      unfolding r_def using h Lex_switch_INDEX [OF assms, of m] by simp
    then show "r \<noteq> K INDEX_AFTER_ORDER_BY_BEFORE_AT"
      unfolding Lex_INDEX_peek [OF r] using ns d by simp
  qed
  have as: "id' (peek m 2) = 0 \<and> c = K AS \<longrightarrow> r = K AS"
    unfolding r_def
    using Lex_switch_AS [OF assms, of m] Lex_lookahead_AS [OF assms r(1)]
      wf_codes_punct(6) [OF assms, of SYSTEM] by simp
  have on: "id' (peek m 2) = 0 \<and> c = K ON \<longrightarrow>
                  r = (if id' (peek m 1) = K DELETE then K ON_LA else K ON)"
    unfolding r_def
    using Lex_switch_ON [OF assms, of m] Lex_lookahead_ON [OF assms r(1)]
      wf_codes_punct(6) [OF assms, of NO] wf_codes_punct(6) [OF assms, of RESTRICT]
      wf_codes_punct(6) [OF assms, of CASCADE] wf_codes_punct(6) [OF assms, of SET] by simp
  have st: "id' (peek m 2) = 0 \<and> c = K SET \<and> id' (peek m 1) \<noteq> K TRACING \<longrightarrow> r = K SET"
    unfolding r_def
    using Lex_switch_SET [OF assms, of m] Lex_lookahead_SET [OF assms r(1)]
      wf_codes_punct(6) [OF assms, of TRACING] by simp
  show "\<exists>r. Lex K (m\<lparr>lastPos := lastPos m - 1\<rparr>) lval = Inr (m, (peek m 0)\<lparr>id' := r\<rparr>, r) \<and>
               (id' (peek m 0) = 0 \<longrightarrow> r = 0) \<and>
               (id' (peek m (- 1)) = 0 \<and> id' (peek m 0) \<in> {K NOTHING, K INDEX} \<longrightarrow>
                  r = id' (peek m 0)) \<and>
               (id' (peek m 1) = 0 \<and> id' (peek m 0) \<noteq> K NOTHING \<longrightarrow> r = id' (peek m 0)) \<and>
               (id' (peek m (- 2)) = 0 \<and> id' (peek m 0) = K INDEX \<and>
                id' (peek m (- 1)) \<notin> {rune CHR '','', rune CHR ''('', K OPTIONS} \<longrightarrow> r = K INDEX) \<and>
               (id' (peek m 2) = 0 \<and> id' (peek m 0) = K INDEX \<longrightarrow>
                  r = (if (afterCommaParenOrInverted K m \<or> id' (peek m (- 1)) = K OPTIONS) \<and>
                          id' (peek m 1) = rune CHR ''(''
                       then K INDEX_BEFORE_PAREN else K INDEX)) \<and>
               (id' (peek m 0) = K INDEX \<and>
                (\<exists>k\<in>{1..6}. id' (peek m k) = 0 \<and> (\<forall>j\<in>{2..<k}. id' (peek m j) \<noteq> rune CHR ''@'')) \<longrightarrow>
                  r \<noteq> K INDEX_AFTER_ORDER_BY_BEFORE_AT) \<and>
               (id' (peek m 2) = 0 \<and> id' (peek m 0) = K AS \<longrightarrow> r = K AS) \<and>
               (id' (peek m 2) = 0 \<and> id' (peek m 0) = K ON \<longrightarrow>
                  r = (if id' (peek m 1) = K DELETE then K ON_LA else K ON)) \<and>
               (id' (peek m 2) = 0 \<and> id' (peek m 0) = K SET \<and> id' (peek m 1) \<noteq> K TRACING \<longrightarrow>
                  r = K SET)"
    unfolding c_def [symmetric]
    by (intro exI [of _ r] conjI) (rule L z p n pp s sc as on st)+
qed

theorem end_of_input_token_witness:
  "wf_codes yycode \<and>
   int (length (tokens (ex_order_by_plain\<lparr>lastPos := 2\<rparr>))) \<le> lastPos (ex_order_by_plain\<lparr>lastPos := 2\<rparr>) + 1 \<and>
   length (in' (ex_order_by_plain\<lparr>lastPos := 2\<rparr>)) < 2 ^ 31 \<and>
   Lex yycode (ex_order_by_plain\<lparr>lastPos := 2\<rparr>) zeroSym =
     Inr (ex_order_by_plain\<lparr>lastPos := 3\<rparr>, \<lparr>id' = 0, pos = 14, str = ''EOF''\<rparr>, 0) \<and>
   lastToken (ex_order_by_plain\<lparr>lastPos := 3\<rparr>) = \<lparr>id' = 0, pos = 14, str = ''EOF''\<rparr> \<and>
   0 \<le> lastPos (ex_as_of\<lparr>lastPos := 0\<rparr>) \<and>
   lastPos (ex_as_of\<lparr>lastPos := 0\<rparr>) < int (length (tokens (ex_as_of\<lparr>lastPos := 0\<rparr>))) \<and>
   id' (peek (ex_as_of\<lparr>lastPos := 0\<rparr>) 0) = yycode AS \<and>
   id' (peek (ex_as_of\<lparr>lastPos := 0\<rparr>) 1) = yycode OF \<and>
   id' (peek (ex_as_of\<lparr>lastPos := 0\<rparr>) 2) = 0 \<and>
   Lex yycode ex_as_of zeroSym =
     Inr (ex_as_of\<lparr>lastPos := 0\<rparr>, \<lparr>id' = yycode AS, pos = 0, str = ''AS''\<rparr>, yycode AS)"
  using wf_codes_yycode
    end_of_input_token [OF wf_codes_yycode, of "ex_order_by_plain\<lparr>lastPos := 2\<rparr>" zeroSym
      "ex_as_of\<lparr>lastPos := 0\<rparr>"]
  by (simp add: ex_order_by_plain_def ex_as_of_def mk_lexer_def peek_def yycode_simps int32_def)

text \<open>
  C6 as stated fails for a source text of \<open>2^31\<close> bytes: the offset of the end-of-input
  token is \<open>- 2147483648\<close>, not the length of the source text.
\<close>

theorem offset_of_a_long_source_counterexample:
  "int (length (tokens ex_huge)) \<le> lastPos ex_huge + 1 \<and>
   int (length (in' ex_huge)) = 2147483648 \<and>
   Lex yycode ex_huge zeroSym =
     Inr (ex_huge\<lparr>lastPos := 0\<rparr>, \<lparr>id' = 0, pos = - 2147483648, str = ''EOF''\<rparr>, 0) \<and>
   lastToken (ex_huge\<lparr>lastPos := 0\<rparr>) = \<lparr>id' = 0, pos = - 2147483648, str = ''EOF''\<rparr> \<and>
   pos (lastToken (ex_huge\<lparr>lastPos := 0\<rparr>)) \<noteq> int (length (in' ex_huge))"
proof -
  have t: "tokens ex_huge = []" "lastPos ex_huge = - 1"
    unfolding ex_huge_def mk_lexer_def by (simp_all only: lexer.simps)
  have a: "int (length (tokens ex_huge)) \<le> lastPos ex_huge + 1"
    unfolding t by simp
  have i: "int32 (int (length (in' ex_huge))) = - 2147483648"
    unfolding ex_huge_length by (simp add: int32_def)
  have u: "ex_huge\<lparr>lastPos := lastPos ex_huge + 1\<rparr> = ex_huge\<lparr>lastPos := 0\<rparr>"
    unfolding t by simp
  have L: "Lex yycode ex_huge zeroSym =
     Inr (ex_huge\<lparr>lastPos := 0\<rparr>, \<lparr>id' = 0, pos = - 2147483648, str = ''EOF''\<rparr>, 0)"
    using Lex_past_end [OF a, of yycode zeroSym] unfolding i u .
  have T: "lastToken (ex_huge\<lparr>lastPos := 0\<rparr>) = \<lparr>id' = 0, pos = - 2147483648, str = ''EOF''\<rparr>"
    using t i by (simp add: lastToken_def)
  have N: "pos (lastToken (ex_huge\<lparr>lastPos := 0\<rparr>)) \<noteq> int (length (in' ex_huge))"
    unfolding T ex_huge_length by simp
  show ?thesis
    by (intro conjI) (rule a ex_huge_length L T N)+
qed

subsection \<open>The placeholder counter\<close>

lemma UpdateNumPlaceholders_num:
  "numPlaceholders (UpdateNumPlaceholders l p) = max (numPlaceholders l) (int (Idx p) + 1)"
  by (simp add: UpdateNumPlaceholders_def Let_def max_def)

lemma UpdateNumPlaceholders_foldl:
  "numPlaceholders (foldl UpdateNumPlaceholders l ps) =
     Max (set (numPlaceholders l # map (\<lambda>p. int (Idx p) + 1) ps))"
proof (induction ps arbitrary: l)
  case Nil
  show ?case by simp
next
  case (Cons p ps)
  have "Max (insert (max (numPlaceholders l) (int (Idx p) + 1)) ((\<lambda>p. int (Idx p) + 1) ` set ps)) =
        Max (insert (numPlaceholders l) (insert (int (Idx p) + 1) ((\<lambda>p. int (Idx p) + 1) ` set ps)))"
    by (cases "set ps = {}") (simp_all add: max.assoc)
  with Cons show ?case by (simp add: UpdateNumPlaceholders_num)
qed

lemma Max_succ_image:
  assumes "finite A" "A \<noteq> {}"
  shows "Max ((\<lambda>n. int n + 1) ` A) = 1 + int (Max A)"
proof -
  have "mono (\<lambda>n::nat. int n + 1)" by (simp add: mono_def)
  from mono_Max_commute [OF this assms] show ?thesis by simp
qed

text \<open>
  C8. After init, whatever placeholders are recorded with UpdateNumPlaceholders, one call
  after the other, the counter is one plus the greatest index recorded, and 0 when none
  was; a call sets the counter to the maximum of its value and the index plus one, so it
  never decreases; recording the indices 0 and 2 gives 3.
\<close>

theorem numPlaceholders_is_one_plus_max:
  "numPlaceholders (foldl UpdateNumPlaceholders (init l sql toks) ps) =
     (if ps = [] then 0 else 1 + int (Max (Idx ` set ps))) \<and>
   numPlaceholders (UpdateNumPlaceholders l p) = max (numPlaceholders l) (int (Idx p) + 1) \<and>
   numPlaceholders l \<le> numPlaceholders (UpdateNumPlaceholders l p) \<and>
   numPlaceholders
     (UpdateNumPlaceholders (UpdateNumPlaceholders (init l sql toks) \<lparr>Idx = 0\<rparr>) \<lparr>Idx = 2\<rparr>) = 3"
proof (intro conjI)
  show "numPlaceholders (foldl UpdateNumPlaceholders (init l sql toks) ps) =
     (if ps = [] then 0 else 1 + int (Max (Idx ` set ps)))"
  proof (cases "ps = []")
    case True
    then show ?thesis by (simp add: init_def)
  next
    case False
    let ?S = "(\<lambda>n. int n + 1) ` (Idx ` set ps)"
    have ne: "Idx ` set ps \<noteq> {}" "finite (Idx ` set ps)" using False by simp_all
    have m: "Max ?S = 1 + int (Max (Idx ` set ps))"
      by (rule Max_succ_image [OF ne(2,1)])
    have "numPlaceholders (foldl UpdateNumPlaceholders (init l sql toks) ps) = Max (insert 0 ?S)"
      by (simp add: UpdateNumPlaceholders_foldl init_def image_image)
    also have "\<dots> = max 0 (Max ?S)"
      using ne by (subst Max_insert) simp_all
    also have "\<dots> = 1 + int (Max (Idx ` set ps))"
      unfolding m by simp
    finally show ?thesis using False by simp
  qed
  show "numPlaceholders (UpdateNumPlaceholders l p) = max (numPlaceholders l) (int (Idx p) + 1)"
    by (rule UpdateNumPlaceholders_num)
  show "numPlaceholders l \<le> numPlaceholders (UpdateNumPlaceholders l p)"
    by (simp add: UpdateNumPlaceholders_num)
  show "numPlaceholders
     (UpdateNumPlaceholders (UpdateNumPlaceholders (init l sql toks) \<lparr>Idx = 0\<rparr>) \<lparr>Idx = 2\<rparr>) = 3"
    by (simp add: UpdateNumPlaceholders_def init_def Let_def)
qed

theorem numPlaceholders_is_one_plus_max_witness:
  "numPlaceholders
     (foldl UpdateNumPlaceholders (init ex_returning ''SELECT $1, $3'' []) [\<lparr>Idx = 0\<rparr>, \<lparr>Idx = 2\<rparr>]) = 3 \<and>
   numPlaceholders (foldl UpdateNumPlaceholders (init ex_returning ''SELECT 1'' []) []) = 0"
  using numPlaceholders_is_one_plus_max [of ex_returning "''SELECT $1, $3''" "[]" "[\<lparr>Idx = 0\<rparr>, \<lparr>Idx = 2\<rparr>]"]
    numPlaceholders_is_one_plus_max [of ex_returning "''SELECT 1''" "[]" "[]"]
  by simp

subsection \<open>Help requests\<close>

lemma lastToken_lastError [simp]: "lastToken (l\<lparr>lastError := e\<rparr>) = lastToken l"
  by (simp add: lastToken_def)



text \<open>
  C9. SetHelp with an error pending: when the identity of the last token is the help
  sentinel, the error becomes the help payload, whose message begins with the marker
  \<^verbatim>\<open>help token in input\<close> and which carries the rendered help text as a hint; otherwise
  the pending error is kept as it is, with its message, and only gains the hint
  \<^verbatim>\<open>try \h\<close> with the command, or \<^verbatim>\<open>try \hf\<close> with the function when the command is
  empty. Nothing but the error field of the lexer changes.
\<close>

theorem SetHelp_payload_or_hint:
  assumes "lastError l = Some e"
  shows "(id' (lastToken l) = K HELPTOKEN \<longrightarrow>
            lastError (SetHelp K render l msg) =
              Some (WithHint (Wrap e ''help token in input'') (render msg)) \<and>
            prefix ''help token in input''
              (Error P (WithHint (Wrap e ''help token in input'') (render msg)))) \<and>
         (id' (lastToken l) \<noteq> K HELPTOKEN \<longrightarrow>
            (\<exists>hint. hint = (if Command msg \<noteq> [] then ''try '' @ [bs] @ ''h '' @ Command msg
                            else ''try '' @ [bs] @ ''hf '' @ Function msg) \<and>
               lastError (SetHelp K render l msg) = Some (WithHint e hint) \<and>
               Error P (WithHint e hint) = Error P e)) \<and>
         SetHelp K render l msg = l\<lparr>lastError := lastError (SetHelp K render l msg)\<rparr>"
  using assms
  by (simp add: SetHelp_def Let_def populateHelpMsg_def errors_WithHint_def errors_Wrap_def
        specialHelpErrorPrefix_def)

theorem SetHelp_payload_or_hint_witness:
  "lastError ex_help = Some (New ''syntax error'') \<and>
   id' (lastToken ex_help) = yycode HELPTOKEN \<and>
   lastError (SetHelp yycode (\<lambda>m. ''Command: '' @ Command m) ex_help \<lparr>Command = ''SELECT'', Function = []\<rparr>) =
     Some (WithHint (Wrap (New ''syntax error'') ''help token in input'') ''Command: SELECT'') \<and>
   Error printerWrite (WithHint (Wrap (New ''syntax error'') ''help token in input'') ''Command: SELECT'') =
     ''help token in input: syntax error'' \<and>
   id' (lastToken (ex_help\<lparr>lastPos := 0\<rparr>)) \<noteq> yycode HELPTOKEN \<and>
   lastError (SetHelp yycode (\<lambda>m. ''Command: '' @ Command m) (ex_help\<lparr>lastPos := 0\<rparr>)
                \<lparr>Command = ''SELECT'', Function = []\<rparr>) =
     Some (WithHint (New ''syntax error'') (''try '' @ [bs] @ ''h SELECT''))"
proof -
  have a: "lastError ex_help = Some (New ''syntax error'')"
    and b: "id' (lastToken ex_help) = yycode HELPTOKEN"
    and c: "lastError (ex_help\<lparr>lastPos := 0\<rparr>) = Some (New ''syntax error'')"
    and d: "id' (lastToken (ex_help\<lparr>lastPos := 0\<rparr>)) \<noteq> yycode HELPTOKEN"
    by (simp_all add: ex_help_def ex_defs lastToken_def)
  have m: "Error printerWrite (WithHint (Wrap (New ''syntax error'') ''help token in input'') ''Command: SELECT'') =
     ''help token in input: syntax error''"
    by (simp add: FormatError_def printerWrite_def nl_def)
  show ?thesis
    using a b d m
      SetHelp_payload_or_hint [OF a, of yycode "\<lambda>m. ''Command: '' @ Command m" "\<lparr>Command = ''SELECT'', Function = []\<rparr>" printerWrite]
      SetHelp_payload_or_hint [OF c, of yycode "\<lambda>m. ''Command: '' @ Command m" "\<lparr>Command = ''SELECT'', Function = []\<rparr>" printerWrite]
    by simp
qed

subsection \<open>The detail block\<close>

lemma IndexByte_notin: "c \<notin> set s \<Longrightarrow> IndexByte s c = - 1"
  by (induction s) auto

lemma IndexByte_first: "c \<notin> set xs \<Longrightarrow> IndexByte (xs @ c # ys) c = int (length xs)"
  by (induction xs) (auto simp: Let_def)

lemma end_of_line:
  assumes "nl \<notin> set line" "post = [] \<or> hd post = nl" "k \<le> length line"
  shows "take (nat (let i = IndexByte (drop k line @ post) nl
                    in if i = - 1 then int (length (pre @ line @ post))
                       else i + int (length pre + k))) (pre @ line @ post) = pre @ line"
proof (cases post)
  case Nil
  have "nl \<notin> set (drop k line)" using assms(1) by (meson in_set_dropD)
  then show ?thesis using Nil by (simp add: IndexByte_notin)
next
  case (Cons c cs)
  with assms(2) have c: "c = nl" by simp
  have n: "nl \<notin> set (drop k line)" using assms(1) by (meson in_set_dropD)
  have "IndexByte (drop k line @ post) nl = int (length line - k)"
    using IndexByte_first [OF n, of cs] Cons c by simp
  then show ?thesis using assms(3) by (simp add: Let_def)
qed

lemma start_of_line:
  assumes "nl \<notin> set line" "pre = [] \<or> last pre = nl" "k \<le> length line"
  shows "LastIndexByte (pre @ take k line) nl + 1 = int (length pre)"
proof (cases "pre = []")
  case True
  have "nl \<notin> set (rev (take k line))" using assms(1) by (auto dest: in_set_takeD)
  then show ?thesis using True by (simp add: LastIndexByte_def IndexByte_notin)
next
  case False
  with assms(2) have "last pre = nl" by simp
  with False obtain ps where ps: "pre = ps @ [nl]" by (metis append_butlast_last_id)
  have n: "nl \<notin> set (rev (take k line))" using assms(1) by (auto dest: in_set_takeD)
  have "IndexByte (rev (pre @ take k line)) nl = int (length (rev (take k line)))"
    using IndexByte_first [OF n, of "rev ps"] ps by simp
  then show ?thesis using assms(3) ps by (simp add: LastIndexByte_def Let_def)
qed

lemma Repeat_space: "Repeat '' '' n = replicate n CHR '' ''"
  by (induction n) (simp_all add: Repeat_def)

lemma buf_decomp_k:
  assumes "pre = [] \<or> last pre = nl" "nl \<notin> set line" "post = [] \<or> hd post = nl"
    "k \<le> length line"
  shows "PopulateErrorDetails_buf (int (length pre + k)) (pre @ line @ post) =
     Inr (''source SQL:'' @ [nl] @ pre @ line @ [nl] @ replicate k CHR '' '' @ ''^'')"
proof -
  have dr: "drop (nat (int (length pre + k))) (pre @ line @ post) = drop k line @ post"
    unfolding nat_int using assms(4) by simp
  have tk: "take (nat (int (length pre + k))) (pre @ line @ post) = pre @ take k line"
    unfolding nat_int using assms(4) by simp
  have rng: "\<not> (int (length pre + k) < 0 \<or> int (length (pre @ line @ post)) < int (length pre + k))"
    using assms(4) by simp
  have e: "take (nat (let i = IndexByte (drop k line @ post) nl
                    in if i = - 1 then int (length (pre @ line @ post))
                       else i + int (length pre + k))) (pre @ line @ post) = pre @ line"
    by (rule end_of_line [OF assms(2,3,4)])
  have s: "LastIndexByte (pre @ take k line) nl + 1 = int (length pre)"
    by (rule start_of_line [OF assms(2,1,4)])
  have r: "nat (int (length pre + k) - int (length pre)) = k" by simp
  have n: "\<not> int (length pre + k) - int (length pre) < 0" by simp
  show ?thesis
    unfolding PopulateErrorDetails_buf_def dr tk s if_not_P [OF rng] Let_def if_not_P [OF n] r
      e [unfolded Let_def] Repeat_space
    by simp
qed

lemma buf_decomp:
  assumes "lIn = pre @ line @ post" "pre = [] \<or> last pre = nl" "nl \<notin> set line"
    "post = [] \<or> hd post = nl" "int (length pre) \<le> p" "p \<le> int (length pre + length line)"
  shows "PopulateErrorDetails_buf p lIn =
     Inr (''source SQL:'' @ [nl] @ pre @ line @ [nl] @
          replicate (nat p - length pre) CHR '' '' @ ''^'')"
proof -
  define k where "k = nat p - length pre"
  have k: "k \<le> length line" and p: "p = int (length pre + k)"
    using assms(5,6) by (auto simp: k_def)
  show ?thesis
    unfolding k_def [symmetric] assms(1)
    by (subst p) (rule buf_decomp_k [OF assms(2,3,4) k])
qed

lemma decomp_exists:
  assumes "0 \<le> p" "p \<le> int (length lIn)"
  shows "\<exists>pre line post. lIn = pre @ line @ post \<and> (pre = [] \<or> last pre = nl) \<and>
     nl \<notin> set line \<and> (post = [] \<or> hd post = nl) \<and>
     int (length pre) \<le> p \<and> p \<le> int (length pre + length line)"
proof -
  let ?P = "\<lambda>c. c \<noteq> nl"
  let ?a = "take (nat p) lIn" and ?b = "drop (nat p) lIn"
  let ?pre = "rev (dropWhile ?P (rev ?a))"
  let ?l1 = "rev (takeWhile ?P (rev ?a))"
  let ?l2 = "takeWhile ?P ?b"
  let ?post = "dropWhile ?P ?b"
  have a: "?a = ?pre @ ?l1"
    by (metis rev_append rev_rev_ident takeWhile_dropWhile_id)
  have 1: "lIn = ?pre @ (?l1 @ ?l2) @ ?post"
    by (metis a append_assoc append_take_drop_id takeWhile_dropWhile_id)
  have 2: "?pre = [] \<or> last ?pre = nl"
    by (metis (mono_tags, lifting) hd_dropWhile last_rev rev_is_Nil_conv)
  have 3: "nl \<notin> set (?l1 @ ?l2)"
    by (auto dest: set_takeWhileD)
  have 4: "?post = [] \<or> hd ?post = nl"
    by (metis (mono_tags, lifting) hd_dropWhile)
  have "length ?a = nat p" using assms by simp
  then have len: "length ?pre + length ?l1 = nat p" using a by (metis length_append)
  have 5: "int (length ?pre) \<le> p" using len assms(1) by linarith
  have 6: "p \<le> int (length ?pre + length (?l1 @ ?l2))" using len assms(1) by simp
  from 1 2 3 4 5 6 show ?thesis by blast
qed

lemma replicate_4: "replicate 4 x = [x, x, x, x]"
  by (simp add: eval_nat_numeral)



lemma retErr_syntactic:
  "tokID \<noteq> K ERROR \<Longrightarrow>
   PopulateErrorDetails_retErr K P tokID s (Some e) =
     Inr (Some (Wrap (if Contains (Error P e) ''syntax error'' then e else Wrap e ''syntax error'')
                  (''at or near '' @ [dq] @ EscapeMarkers s @ [dq])))"
  by (simp add: PopulateErrorDetails_retErr_def errors_Wrap_def)

lemma retErr_Some:
  "tokID = K ERROR \<or> lastErr \<noteq> None \<Longrightarrow>
   \<exists>r. PopulateErrorDetails_retErr K P tokID s lastErr = Inr (Some r)"
  by (cases lastErr)
     (auto simp: PopulateErrorDetails_retErr_def pgerror_WithCandidateCode_def
        errors_WithSecondaryError_def errors_Wrap_def)

lemma buf_total:
  assumes "0 \<le> p" "p \<le> int (length lIn)"
  shows "\<exists>d. PopulateErrorDetails_buf p lIn = Inr d"
  using decomp_exists [OF assms] buf_decomp by blast

text \<open>
  C5. For an offset inside the source text, split the text around the line of the offset:
  what precedes the line (empty, or ending in a newline), the line (free of newlines,
  reaching from there to the next newline or the end) and the rest. The detail of the
  error that PopulateErrorDetails returns is the heading, the source text through the end
  of that line, a newline, and a caret after as many spaces as the offset lies beyond the
  start of the line. Such a split exists for every offset. In particular an offset at
  line 2, column 5 gives the first two lines as they are and four spaces before the caret.
\<close>

theorem detail_block_line_and_caret:
  assumes "0 \<le> p" and "p \<le> int (length lIn)" and "tokID = K ERROR \<or> lastErr \<noteq> None"
  shows "(\<exists>pre line post. lIn = pre @ line @ post \<and> (pre = [] \<or> last pre = nl) \<and>
            nl \<notin> set line \<and> (post = [] \<or> hd post = nl) \<and>
            int (length pre) \<le> p \<and> p \<le> int (length pre + length line)) \<and>
         (\<forall>pre line post. lIn = pre @ line @ post \<and> (pre = [] \<or> last pre = nl) \<and>
            nl \<notin> set line \<and> (post = [] \<or> hd post = nl) \<and>
            int (length pre) \<le> p \<and> p \<le> int (length pre + length line) \<longrightarrow>
            (\<exists>retErr. PopulateErrorDetails K P tokID s p lastErr lIn =
               Inr (Some (WithDetail retErr
                 (''source SQL:'' @ [nl] @ pre @ line @ [nl] @
                  replicate (nat p - length pre) CHR '' '' @ ''^''))))) \<and>
         (\<forall>line1 line2 rest. lIn = line1 @ [nl] @ line2 @ rest \<and> nl \<notin> set line1 \<and>
            nl \<notin> set line2 \<and> (rest = [] \<or> hd rest = nl) \<and>
            p = int (length line1 + 1 + 4) \<and> 4 \<le> length line2 \<longrightarrow>
            (\<exists>retErr. PopulateErrorDetails K P tokID s p lastErr lIn =
               Inr (Some (WithDetail retErr
                 (''source SQL:'' @ [nl] @ line1 @ [nl] @ line2 @ [nl] @ ''    ^'')))))"
proof -
  obtain r where r: "PopulateErrorDetails_retErr K P tokID s lastErr = Inr (Some r)"
    using retErr_Some [of tokID K lastErr P s] assms(3) by blast
  have main: "PopulateErrorDetails K P tokID s p lastErr lIn =
               Inr (Some (WithDetail r
                 (''source SQL:'' @ [nl] @ pre @ line @ [nl] @
                  replicate (nat p - length pre) CHR '' '' @ ''^'')))"
    if "lIn = pre @ line @ post" "pre = [] \<or> last pre = nl" "nl \<notin> set line"
       "post = [] \<or> hd post = nl" "int (length pre) \<le> p" "p \<le> int (length pre + length line)"
    for pre line post
    using buf_decomp [OF that] r by (simp add: PopulateErrorDetails_def errors_WithDetail_def)
  have two: "PopulateErrorDetails K P tokID s p lastErr lIn =
               Inr (Some (WithDetail r
                 (''source SQL:'' @ [nl] @ line1 @ [nl] @ line2 @ [nl] @ ''    ^'')))"
    if "lIn = line1 @ [nl] @ line2 @ rest" "nl \<notin> set line2" "rest = [] \<or> hd rest = nl"
       "p = int (length line1 + 1 + 4)" "4 \<le> length line2"
    for line1 line2 rest
  proof -
    have "nat p - length (line1 @ [nl]) = 4" using that(4) by simp
    then have "replicate (nat p - length (line1 @ [nl])) CHR '' '' = ''    ''"
      by (simp only: replicate_4)
    then show ?thesis
      using main [of "line1 @ [nl]" line2 rest] that by simp
  qed
  show ?thesis
    using decomp_exists [OF assms(1,2)] main two by blast
qed

theorem detail_block_line_and_caret_witness:
  "(0::int) \<le> 11 \<and> 11 \<le> int (length ex_two_lines) \<and> Some (New ''syntax error'') \<noteq> None \<and>
   ex_two_lines = ''SELECT'' @ [nl] @ ''a + b c'' @ ([nl] @ ''FROM t'') \<and>
   nl \<notin> set ''SELECT'' \<and> nl \<notin> set ''a + b c'' \<and> hd ([nl] @ ''FROM t'') = nl \<and>
   (11::int) = int (length ''SELECT'' + 1 + 4) \<and> 4 \<le> length ''a + b c'' \<and>
   PopulateErrorDetails yycode printerWrite ident_code ''b'' 11 (Some (New ''syntax error'')) ex_two_lines =
     Inr (Some (WithDetail (Wrap (New ''syntax error'') (''at or near '' @ [dq] @ ''b'' @ [dq]))
       (''source SQL:'' @ [nl] @ ''SELECT'' @ [nl] @ ''a + b c'' @ [nl] @ ''    ^'')))"
proof -
  have h: "(0::int) \<le> 11" "11 \<le> int (length ex_two_lines)"
    "ident_code = yycode ERROR \<or> Some (New ''syntax error'') \<noteq> None"
    by (simp_all add: ex_two_lines_def)
  have d1: "ex_two_lines = ''SELECT'' @ [nl] @ ''a + b c'' @ ([nl] @ ''FROM t'')"
    by (simp add: ex_two_lines_def)
  have d2: "nl \<notin> set ''SELECT''" "nl \<notin> set ''a + b c''" by (simp_all add: nl_def)
  have d3: "hd ([nl] @ ''FROM t'') = nl" by simp
  have d4: "(11::int) = int (length ''SELECT'' + 1 + 4)" "4 \<le> length ''a + b c''" by simp_all
  have r: "PopulateErrorDetails_retErr yycode printerWrite ident_code ''b'' (Some (New ''syntax error'')) =
    Inr (Some (Wrap (New ''syntax error'') (''at or near '' @ [dq] @ ''b'' @ [dq])))"
    using retErr_syntactic [of ident_code yycode printerWrite "''b''" "New ''syntax error''"]
    by (simp add: ident_code_def yycode_simps)
  have d: "ex_two_lines = ''SELECT'' @ [nl] @ ''a + b c'' @ ([nl] @ ''FROM t'') \<and> nl \<notin> set ''SELECT'' \<and>
            nl \<notin> set ''a + b c'' \<and> ([nl] @ ''FROM t'' = [] \<or> hd ([nl] @ ''FROM t'') = nl) \<and>
            (11::int) = int (length ''SELECT'' + 1 + 4) \<and> 4 \<le> length ''a + b c''"
    by (intro conjI disjI2) (rule d1 d2 d3 d4)+
  note T = detail_block_line_and_caret [where K = yycode and P = printerWrite and tokID = ident_code and s = "''b''"
      and lastErr = "Some (New ''syntax error'')", OF h]
  note U = T [THEN conjunct2, THEN conjunct2, THEN spec [where x = "''SELECT''"],
      THEN spec [where x = "''a + b c''"], THEN spec [where x = "[nl] @ ''FROM t''"], THEN mp, OF d]
  from U obtain retErr where e:
    "PopulateErrorDetails yycode printerWrite ident_code ''b'' 11 (Some (New ''syntax error'')) ex_two_lines =
      Inr (Some (WithDetail retErr
        (''source SQL:'' @ [nl] @ ''SELECT'' @ [nl] @ ''a + b c'' @ [nl] @ ''    ^'')))"
    by (rule exE)
  obtain b where b: "PopulateErrorDetails_buf 11 ex_two_lines = Inr b"
    using buf_total [OF h(1,2)] by blast
  have "retErr = Wrap (New ''syntax error'') (''at or near '' @ [dq] @ ''b'' @ [dq])"
    using e unfolding PopulateErrorDetails_def r b errors_WithDetail_def by simp
  with e have "PopulateErrorDetails yycode printerWrite ident_code ''b'' 11 (Some (New ''syntax error'')) ex_two_lines =
     Inr (Some (WithDetail (Wrap (New ''syntax error'') (''at or near '' @ [dq] @ ''b'' @ [dq]))
       (''source SQL:'' @ [nl] @ ''SELECT'' @ [nl] @ ''a + b c'' @ [nl] @ ''    ^'')))"
    by (simp only:)
  then show ?thesis
    by (intro conjI) (rule h d1 d2 d3 d4 option.distinct | assumption)+
qed

subsection \<open>Classification and message\<close>










subsection \<open>A failure before the first token\<close>

lemma populateErrorDetails_before_start:
  assumes "wf_codes K" and "lastPos l < 0" and "lastError l = Some e"
  shows "populateErrorDetails K P l =
           Inr (l\<lparr>lastError := Some (WithDetail
                  (Wrap (if Contains (Error P e) ''syntax error'' then e else Wrap e ''syntax error'')
                     (''at or near '' @ [dq] @ [dq]))
                  (''source SQL:'' @ [nl] @ takeWhile (\<lambda>c. c \<noteq> nl) (in' l) @ [nl] @ ''^''))\<rparr>)"
proof -
  have t: "lastToken l = \<lparr>id' = 0, pos = 0, str = []\<rparr>"
    using assms(2) by (simp add: lastToken_def zeroSym_def)
  have b: "PopulateErrorDetails_buf 0 (in' l) =
     Inr (''source SQL:'' @ [nl] @ takeWhile (\<lambda>c. c \<noteq> nl) (in' l) @ [nl] @ ''^'')"
    using buf_decomp [of "in' l" "[]" "takeWhile (\<lambda>c. c \<noteq> nl) (in' l)"
        "dropWhile (\<lambda>c. c \<noteq> nl) (in' l)" 0]
      hd_dropWhile [of "\<lambda>c. c \<noteq> nl" "in' l"]
    by (auto dest: set_takeWhileD)
  have n: "(0::int) \<noteq> K ERROR" using wf_codes_punct(6) [OF assms(1)] .
  show ?thesis
    using b n assms(3)
    by (simp add: populateErrorDetails_def t PopulateErrorDetails_def retErr_syntactic [of 0 K P]
          errors_WithDetail_def Let_def)
qed

text \<open>
  C10. While the position is before the start, lastToken is the zero token (identity 0,
  offset 0, empty text), which is not the end-of-input token. A failure recorded then, with
  an error pending, is a syntactic one: the message is wrapped with \<^verbatim>\<open>at or near ""\<close>, and
  the detail shows the first line of the source text with the caret in its first column.
  So it is for the message that the parser reports through Error.
\<close>

theorem failure_before_first_token:
  assumes "wf_codes K" and "lastPos l < 0" and "lastError l = Some e"
  shows "lastToken l = \<lparr>id' = 0, pos = 0, str = []\<rparr> \<and>
         lastToken l \<noteq> \<lparr>id' = 0, pos = int32 (int (length (in' l))), str = ''EOF''\<rparr> \<and>
         populateErrorDetails K P l =
           Inr (l\<lparr>lastError := Some (WithDetail
                  (Wrap (if Contains (Error P e) ''syntax error'' then e else Wrap e ''syntax error'')
                     (''at or near '' @ [dq] @ [dq]))
                  (''source SQL:'' @ [nl] @ takeWhile (\<lambda>c. c \<noteq> nl) (in' l) @ [nl] @ ''^''))\<rparr>) \<and>
         lexer_Error K P l msg =
           Inr (l\<lparr>lastError := Some (WithDetail
                  (Wrap (if Contains (EscapeMarkers (TrimPrefix msg ''syntax error: '')) ''syntax error''
                         then WithCandidateCode (New (EscapeMarkers (TrimPrefix msg ''syntax error: ''))) Syntax
                         else Wrap (WithCandidateCode (New (EscapeMarkers (TrimPrefix msg ''syntax error: ''))) Syntax)
                                ''syntax error'')
                     (''at or near '' @ [dq] @ [dq]))
                  (''source SQL:'' @ [nl] @ takeWhile (\<lambda>c. c \<noteq> nl) (in' l) @ [nl] @ ''^''))\<rparr>)"
proof (intro conjI)
  show t: "lastToken l = \<lparr>id' = 0, pos = 0, str = []\<rparr>"
    using assms(2) by (simp add: lastToken_def zeroSym_def)
  show "lastToken l \<noteq> \<lparr>id' = 0, pos = int32 (int (length (in' l))), str = ''EOF''\<rparr>"
    unfolding t by simp
  show "populateErrorDetails K P l =
           Inr (l\<lparr>lastError := Some (WithDetail
                  (Wrap (if Contains (Error P e) ''syntax error'' then e else Wrap e ''syntax error'')
                     (''at or near '' @ [dq] @ [dq]))
                  (''source SQL:'' @ [nl] @ takeWhile (\<lambda>c. c \<noteq> nl) (in' l) @ [nl] @ ''^''))\<rparr>)"
    by (rule populateErrorDetails_before_start [OF assms])
  let ?e = "WithCandidateCode (New (EscapeMarkers (TrimPrefix msg ''syntax error: ''))) Syntax"
  let ?l = "l\<lparr>lastError := Some ?e\<rparr>"
  have "lastPos ?l < 0" "lastError ?l = Some ?e" using assms(2) by simp_all
  from populateErrorDetails_before_start [OF assms(1) this]
  show "lexer_Error K P l msg =
           Inr (l\<lparr>lastError := Some (WithDetail
                  (Wrap (if Contains (EscapeMarkers (TrimPrefix msg ''syntax error: '')) ''syntax error''
                         then WithCandidateCode (New (EscapeMarkers (TrimPrefix msg ''syntax error: ''))) Syntax
                         else Wrap (WithCandidateCode (New (EscapeMarkers (TrimPrefix msg ''syntax error: ''))) Syntax)
                                ''syntax error'')
                     (''at or near '' @ [dq] @ [dq]))
                  (''source SQL:'' @ [nl] @ takeWhile (\<lambda>c. c \<noteq> nl) (in' l) @ [nl] @ ''^''))\<rparr>)"
    by (simp add: lexer_Error_def Let_def pgerror_WithCandidateCode_def)
qed

theorem failure_before_first_token_witness:
  "wf_codes yycode \<and> lastPos ex_fresh < 0 \<and> lastError ex_fresh = Some (New ''syntax error'') \<and>
   lastToken ex_fresh = \<lparr>id' = 0, pos = 0, str = []\<rparr> \<and>
   populateErrorDetails yycode printerWrite ex_fresh =
     Inr (ex_fresh\<lparr>lastError := Some (WithDetail
            (Wrap (New ''syntax error'') (''at or near '' @ [dq] @ [dq]))
            (''source SQL:'' @ [nl] @ ''SELEC 1'' @ [nl] @ ''^''))\<rparr>)"
proof -
  have h: "lastPos ex_fresh < 0" "lastError ex_fresh = Some (New ''syntax error'')"
    by (simp_all add: ex_fresh_def mk_lexer_def)
  have i: "takeWhile (\<lambda>c. c \<noteq> nl) (in' ex_fresh) = ''SELEC 1''"
    by (simp add: ex_fresh_def mk_lexer_def nl_def)
  show ?thesis
    using wf_codes_yycode h failure_before_first_token [OF wf_codes_yycode h, of printerWrite]
    unfolding i by simp
qed

end
